theory Spec2Isabelle
  imports Complex_Main "HOL-Library.Signed_Division" "HOL-Library.Char_ord"
    "HOL-Library.List_Lexorder" "HOL-Library.Sublist"
begin

section \<open>The FFT filter of fft\_filter.cpp\<close>

text \<open>
  The filter buffers the numeric datapoints of the readings of one asset, one buffer per
  datapoint name, and turns every buffer that holds \<open>m_samples\<close> values into a reading
  of frequency band amplitudes.

  Conventions of the embedding.
  \<^item> C++ \<open>double\<close> and \<open>float\<close> values are real numbers: rounding is not modelled.
  \<^item> C++ \<open>int\<close> values are integers between \<open>INT_MIN\<close> and \<open>INT_MAX\<close> (32 bits).
    The members \<open>m_bands\<close>, \<open>m_samples\<close>, \<open>m_lowPass\<close> and \<open>m_highPass\<close> are
    declared in fft\_filter.h, which is not among the sources; they are taken to be of type
    \<open>int\<close>, as the locals of \<open>runFFT\<close> that are computed from them are.
  \<^item> Undefined behaviour is a value of type \<open>error\<close>: an integer division by zero, a
    signed overflow, a read outside the array \<open>data\<close>.
  \<^item> The member function \<open>FFT\<close> is not among the sources: it is a parameter \<open>F\<close> of
    every function that reaches it, a function from the array before the call to the
    array after it. Nothing is assumed of it but that it returns. The transform is in
    place, so the array after the call has the size of the array before it; \<open>runFFT\<close>
    reads it below that size only.
  \<^item> The lock \<open>m_configMutex\<close> serialises \<open>ingest\<close> and \<open>reconfigure\<close>; each is
    a function from state to state.
\<close>

subsection \<open>Readings and datapoints\<close>

text \<open>The types of the library the filter is written against, as far as the filter uses them.\<close>

datatype DatapointValue =
    T_STRING string
  | T_INTEGER int
  | T_FLOAT real
  | T_FLOAT_ARRAY "real list"

type_synonym Datapoint = "string \<times> DatapointValue"

record Reading =
  assetName :: string
  readingData :: "Datapoint list"

type_synonym ConfigCategory = "string \<rightharpoonup> string"

type_synonym buffers = "(string \<times> real list) list"

type_synonym fft_fn = "real list \<Rightarrow> nat \<Rightarrow> int \<Rightarrow> real list"

record FFTFilter =
  m_asset :: string
  m_bands :: int
  m_samples :: int
  m_lowPass :: int
  m_highPass :: int
  m_buffer :: buffers

subsection \<open>Integer arithmetic of C\<close>

datatype error = DivisionByZero | SignedOverflow | OutOfBounds

definition INT_MAX :: int where
  "INT_MAX = 2147483647"

definition INT_MIN :: int where
  "INT_MIN = - 2147483648"

definition LONG_MAX :: int where
  "LONG_MAX = 9223372036854775807"

definition LONG_MIN :: int where
  "LONG_MIN = - 9223372036854775808"

definition and_then :: "error + 'a \<Rightarrow> ('a \<Rightarrow> error + 'b) \<Rightarrow> error + 'b" where
  "and_then m f = (case m of Inl e \<Rightarrow> Inl e | Inr x \<Rightarrow> f x)"

text \<open>The result of an \<open>int\<close> operation: outside the range of the type it is undefined.\<close>

definition int_result :: "int \<Rightarrow> error + int" where
  "int_result x = (if INT_MIN \<le> x \<and> x \<le> INT_MAX then Inr x else Inl SignedOverflow)"

text \<open>The operator \<open>/\<close> on \<open>int\<close>: it truncates towards zero.\<close>

definition int_div :: "int \<Rightarrow> int \<Rightarrow> error + int" where
  "int_div a b = (if b = 0 then Inl DivisionByZero else int_result (a sdiv b))"

text \<open>The conversion of a \<open>long\<close> to \<open>int\<close>, which keeps the low 32 bits.\<close>

definition long_to_int :: "int \<Rightarrow> int" where
  "long_to_int x = (x + 2147483648) mod 4294967296 - 2147483648"

subsection \<open>strtol, base 10, without end pointer\<close>

text \<open>
  \<open>strtol\<close> of the C library: white space is skipped, a sign is optional, the digits
  that follow are the number, and the first other character ends it. Without a digit
  the result is 0; a number outside \<open>long\<close> is clamped.
\<close>

definition isspace :: "char \<Rightarrow> bool" where
  "isspace c = (c \<in> set [CHR '' '', CHR 0x09, CHR 0x0A, CHR 0x0B, CHR 0x0C, CHR 0x0D])"

definition isdigit :: "char \<Rightarrow> bool" where
  "isdigit c = (c \<in> set ''0123456789'')"

definition digit_value :: "char \<Rightarrow> int" where
  "digit_value c = int (of_char c) - 48"

fun strtol_digits :: "int \<Rightarrow> string \<Rightarrow> int" where
  "strtol_digits acc [] = acc"
| "strtol_digits acc (c # cs) =
     (if isdigit c then strtol_digits (acc * 10 + digit_value c) cs else acc)"

definition strtol :: "string \<Rightarrow> int" where
  "strtol s =
     (case dropWhile isspace s of
        [] \<Rightarrow> 0
      | c # cs \<Rightarrow>
          if c = CHR ''-'' then max LONG_MIN (- strtol_digits 0 cs)
          else if c = CHR ''+'' then min LONG_MAX (strtol_digits 0 cs)
          else min LONG_MAX (strtol_digits 0 (c # cs)))"

subsection \<open>handleConfig and reconfigure\<close>

text \<open>
  \<open>itemExists\<close> is \<open>config k \<noteq> None\<close> and \<open>getValue\<close> is the value stored there.
  \<open>setAsset\<close> is declared in the missing header; it stores its argument in \<open>m_asset\<close>.
\<close>

definition handleConfig :: "ConfigCategory \<Rightarrow> FFTFilter \<Rightarrow> FFTFilter" where
  "handleConfig config st =
    (let st1 = (case config ''asset'' of None \<Rightarrow> st | Some v \<Rightarrow> st\<lparr>m_asset := v\<rparr>);
         st2 = (case config ''bands'' of None \<Rightarrow> st1
                | Some v \<Rightarrow> st1\<lparr>m_bands := long_to_int (strtol v)\<rparr>);
         st3 = (case config ''samples'' of None \<Rightarrow> st2
                | Some v \<Rightarrow> st2\<lparr>m_samples := long_to_int (strtol v)\<rparr>);
         st4 = (case config ''lowPass'' of None \<Rightarrow> st3
                | Some v \<Rightarrow> st3\<lparr>m_lowPass := long_to_int (strtol v)\<rparr>)
     in (case config ''highPass'' of None \<Rightarrow> st4
         | Some v \<Rightarrow> st4\<lparr>m_highPass := long_to_int (strtol v)\<rparr>))"

text \<open>
  \<open>reconfigure\<close>: \<open>setConfig\<close> of the base class parses the new configuration into
  \<open>m_config\<close>; the parsed category is the argument here.
\<close>

definition reconfigure :: "ConfigCategory \<Rightarrow> FFTFilter \<Rightarrow> FFTFilter" where
  "reconfigure newConfig st = handleConfig newConfig st"

subsection \<open>addFFTAsset\<close>

text \<open>
  \<open>m_buffer\<close> is a \<open>std::map\<close>: its entries are kept in the order of their keys, which
  is the order of strings by their bytes, and a key occurs once. \<open>buffer_add\<close> is the body of the loop after the value is known: the
  entry found gets the value appended, a missing entry is inserted with the value alone.
\<close>

definition buffer_add :: "string \<Rightarrow> real \<Rightarrow> buffers \<Rightarrow> buffers" where
  "buffer_add name v buf =
    (case map_of buf name of
       Some vec \<Rightarrow> map (\<lambda>(k, vec). if k = name then (k, vec @ [v]) else (k, vec)) buf
     | None \<Rightarrow> insort_key fst (name, [v]) buf)"

fun addFFTAsset_loop :: "Datapoint list \<Rightarrow> buffers \<Rightarrow> buffers" where
  "addFFTAsset_loop [] buf = buf"
| "addFFTAsset_loop ((name, dpv) # datapoints) buf =
    (case dpv of
       T_FLOAT x \<Rightarrow> addFFTAsset_loop datapoints (buffer_add name x buf)
     | T_INTEGER n \<Rightarrow> addFFTAsset_loop datapoints (buffer_add name (real_of_int n) buf)
     | _ \<Rightarrow> addFFTAsset_loop datapoints buf)"

definition addFFTAsset :: "Reading \<Rightarrow> FFTFilter \<Rightarrow> FFTFilter" where
  "addFFTAsset reading st = st\<lparr>m_buffer := addFFTAsset_loop (readingData reading) (m_buffer st)\<rparr>"

subsection \<open>runFFT\<close>

text \<open>The locals of the loop of \<open>runFFT\<close>.\<close>

record band_state =
  l_datapoints :: "Datapoint list"
  l_band :: int
  l_sum :: real
  l_cnt :: int
  l_peak :: real
  l_peakf :: int

text \<open>
  \<open>snprintf(buf, sizeof(buf), "Band %02d", band)\<close>: the decimal digits of \<open>band\<close>, with a
  zero in front of a single digit. The longest text, 15 characters, fits the 40 of \<open>buf\<close>.
\<close>

definition digit_char :: "nat \<Rightarrow> char" where
  "digit_char d = ''0123456789'' ! d"

fun decimal :: "nat \<Rightarrow> string" where
  "decimal n = (if n < 10 then [digit_char n] else decimal (n div 10) @ [digit_char (n mod 10)])"

definition fmt_02d :: "int \<Rightarrow> string" where
  "fmt_02d n =
    (if n < 0 then CHR ''-'' # decimal (nat (- n))
     else if n < 10 then CHR ''0'' # decimal (nat n)
     else decimal (nat n))"

definition band_label :: "int \<Rightarrow> string" where
  "band_label band = ''Band '' @ fmt_02d band"

text \<open>
  The absolute value of bin \<open>i\<close>, read from \<open>data[i * 2]\<close> and \<open>data[i * 2 + 1]\<close>;
  \<open>dsize\<close> is the number of floats \<open>data\<close> was allocated with.
\<close>

definition magnitude :: "real list \<Rightarrow> int \<Rightarrow> real" where
  "magnitude data i =
     sqrt (data ! nat (i * 2) * data ! nat (i * 2) + data ! nat (i * 2 + 1) * data ! nat (i * 2 + 1))"

definition absValue_at :: "nat \<Rightarrow> real list \<Rightarrow> int \<Rightarrow> error + real" where
  "absValue_at dsize data i =
     and_then (int_result (i * 2 + 1)) (\<lambda>k.
       if i < 0 \<or> int dsize \<le> k then Inl OutOfBounds else Inr (magnitude data i))"

text \<open>The body of the loop, once the absolute value is known.\<close>

definition band_step :: "int \<Rightarrow> int \<Rightarrow> real \<Rightarrow> band_state \<Rightarrow> band_state" where
  "band_step aveSamples i absValue s =
    (let s1 = (if absValue > l_peak s then s\<lparr>l_peak := absValue, l_peakf := i\<rparr> else s);
         s2 = s1\<lparr>l_sum := l_sum s1 + absValue, l_cnt := l_cnt s1 + 1\<rparr>
     in if l_cnt s2 = aveSamples
        then s2\<lparr>l_datapoints := l_datapoints s2 @
                   [(band_label (l_band s2), T_FLOAT (l_sum s2 / real_of_int aveSamples))],
                 l_sum := 0, l_cnt := 0, l_band := l_band s2 + 1\<rparr>
        else s2)"

text \<open>The loop \<open>for (int i = first; i < last; i++)\<close>, over the list of the values of \<open>i\<close>.\<close>

fun band_loop :: "nat \<Rightarrow> real list \<Rightarrow> int \<Rightarrow> int list \<Rightarrow> band_state \<Rightarrow> error + band_state" where
  "band_loop dsize data aveSamples [] s = Inr s"
| "band_loop dsize data aveSamples (i # is) s =
    (case absValue_at dsize data i of
       Inl e \<Rightarrow> Inl e
     | Inr absValue \<Rightarrow> band_loop dsize data aveSamples is (band_step aveSamples i absValue s))"

definition init_band_state :: band_state where
  "init_band_state =
     \<lparr>l_datapoints = [], l_band = 0, l_sum = 0, l_cnt = 0, l_peak = 0, l_peakf = 0\<rparr>"

text \<open>
  \<open>runFFT\<close> up to the end of its loop: the array of complex numbers, the transform, the
  range of bins, and the bands. The result is the state of the locals after the loop.
  \<open>runFFT\<close> is private and \<open>processFFT\<close> alone calls it, with a vector of
  \<open>m_samples\<close> values: half its size is in the range of \<open>int\<close>, and the conversion
  to \<open>n_outputs\<close> keeps it. The counters \<open>cnt\<close> and \<open>band\<close> stay below the number of
  bins of the loop, so their increments do not overflow.
\<close>

definition complex_data :: "real list \<Rightarrow> real list" where
  "complex_data values = concat (map (\<lambda>v. [v, 0]) values)"

definition runFFT_bands :: "fft_fn \<Rightarrow> FFTFilter \<Rightarrow> real list \<Rightarrow> error + band_state" where
  "runFFT_bands F st values =
    (let data = F (complex_data values) (length values) 1;
         n_outputs = int (length values div 2)
     in and_then (int_result (m_lowPass st * n_outputs)) (\<lambda>lo.
        and_then (int_div lo 100) (\<lambda>first.
        and_then (int_result (m_highPass st * n_outputs)) (\<lambda>hi.
        and_then (int_div hi 100) (\<lambda>cut.
        and_then (int_result (n_outputs - cut)) (\<lambda>last.
        and_then (int_result (last - first)) (\<lambda>width.
        and_then (int_div width (m_bands st)) (\<lambda>aveSamples.
          band_loop (length values * 2) data aveSamples [first..last - 1]
            init_band_state))))))))"

text \<open>
  The rest of \<open>runFFT\<close>: the peak is not added to the datapoints (the line that did is
  a comment), and the new reading goes to the end of \<open>out\<close>. \<open>dpName\<close> is not used.
\<close>

definition FFT_Reading :: "FFTFilter \<Rightarrow> band_state \<Rightarrow> Reading" where
  "FFT_Reading st s = \<lparr>assetName = m_asset st @ '' FFT'', readingData = l_datapoints s\<rparr>"

definition runFFT :: "fft_fn \<Rightarrow> FFTFilter \<Rightarrow> Reading list \<Rightarrow> string \<Rightarrow> real list
    \<Rightarrow> error + Reading list" where
  "runFFT F st out dpName values =
     and_then (runFFT_bands F st values) (\<lambda>s. Inr (out @ [FFT_Reading st s]))"

subsection \<open>processFFT\<close>

text \<open>
  The comparison \<open>it->second->size() == m_samples\<close> is between a size and an \<open>int\<close>
  converted to an unsigned type: a negative \<open>m_samples\<close> equals no size.
\<close>

fun processFFT_loop :: "fft_fn \<Rightarrow> FFTFilter \<Rightarrow> buffers \<Rightarrow> Reading list
    \<Rightarrow> error + (buffers \<times> Reading list)" where
  "processFFT_loop F st [] out = Inr ([], out)"
| "processFFT_loop F st ((name, vec) # rest) out =
    (if int (length vec) = m_samples st
     then (case runFFT F st out name vec of
             Inl e \<Rightarrow> Inl e
           | Inr out1 \<Rightarrow>
               (case processFFT_loop F st rest out1 of
                  Inl e \<Rightarrow> Inl e
                | Inr (rest', out2) \<Rightarrow> Inr ((name, []) # rest', out2)))
     else (case processFFT_loop F st rest out of
             Inl e \<Rightarrow> Inl e
           | Inr (rest', out1) \<Rightarrow> Inr ((name, vec) # rest', out1)))"

definition processFFT :: "fft_fn \<Rightarrow> FFTFilter \<Rightarrow> Reading list \<Rightarrow> error + (FFTFilter \<times> Reading list)" where
  "processFFT F st out =
    (case processFFT_loop F st (m_buffer st) out of
       Inl e \<Rightarrow> Inl e
     | Inr (buf, out') \<Rightarrow> Inr (st\<lparr>m_buffer := buf\<rparr>, out'))"

subsection \<open>ingest\<close>

fun ingest_loop :: "fft_fn \<Rightarrow> Reading list \<Rightarrow> FFTFilter \<Rightarrow> Reading list
    \<Rightarrow> error + (FFTFilter \<times> Reading list)" where
  "ingest_loop F [] st out = Inr (st, out)"
| "ingest_loop F (reading # readings) st out =
    (if assetName reading = m_asset st
     then (case processFFT F (addFFTAsset reading st) out of
             Inl e \<Rightarrow> Inl e
           | Inr (st', out') \<Rightarrow> ingest_loop F readings st' out')
     else ingest_loop F readings st (out @ [reading]))"

text \<open>
  \<open>ingest\<close> returns the filter, the vector \<open>readings\<close>, which it clears, and \<open>out\<close>.
\<close>

definition ingest :: "fft_fn \<Rightarrow> Reading list \<Rightarrow> Reading list \<Rightarrow> FFTFilter
    \<Rightarrow> error + (FFTFilter \<times> Reading list \<times> Reading list)" where
  "ingest F readings out st =
    (case ingest_loop F readings st out of
       Inl e \<Rightarrow> Inl e
     | Inr (st', out') \<Rightarrow> Inr (st', [], out'))"

section \<open>Notions used in the statements\<close>

subsection \<open>The loop of runFFT\<close>

text \<open>The loop as a fold, when no read fails, and the bins whose reads do not fail.\<close>

definition band_fold :: "real list \<Rightarrow> int \<Rightarrow> int list \<Rightarrow> band_state \<Rightarrow> band_state" where
  "band_fold data aveSamples is s = foldl (\<lambda>s i. band_step aveSamples i (magnitude data i) s) s is"

definition in_bounds :: "nat \<Rightarrow> int \<Rightarrow> bool" where
  "in_bounds dsize i = (0 \<le> i \<and> i * 2 + 1 < int dsize \<and> i * 2 + 1 \<le> INT_MAX)"

text \<open>The datapoints are floating point values labelled with the numbers of the bands.\<close>

definition labelled :: "band_state \<Rightarrow> bool" where
  "labelled s =
    (l_band s = int (length (l_datapoints s)) \<and>
     map fst (l_datapoints s) = map (\<lambda>j. band_label (int j)) [0..<length (l_datapoints s)] \<and>
     (\<forall>dp\<in>set (l_datapoints s). \<exists>x. snd dp = T_FLOAT x))"

text \<open>The peak: either untouched, or the magnitude of a bin the loop went over.\<close>

definition peak_from :: "real list \<Rightarrow> int set \<Rightarrow> band_state \<Rightarrow> bool" where
  "peak_from data I s =
     ((l_peak s = 0 \<and> l_peakf s = 0) \<or> (l_peakf s \<in> I \<and> l_peak s = magnitude data (l_peakf s)))"

text \<open>The mean of the magnitudes of the \<open>j\<close>-th group of \<open>a\<close> bins of \<open>is\<close>.\<close>

definition group_mean :: "real list \<Rightarrow> nat \<Rightarrow> int list \<Rightarrow> nat \<Rightarrow> real" where
  "group_mean data a is j = sum_list (map (magnitude data) (take a (drop (j * a) is))) / real a"

text \<open>The state after the loop went over \<open>is\<close>, for a positive \<open>aveSamples\<close> \<open>a\<close>.\<close>

definition grouped :: "real list \<Rightarrow> nat \<Rightarrow> int list \<Rightarrow> band_state \<Rightarrow> bool" where
  "grouped data a is s =
    (l_cnt s = int (length is mod a) \<and>
     l_band s = int (length is div a) \<and>
     l_sum s = sum_list (map (magnitude data) (drop (length is div a * a) is)) \<and>
     l_datapoints s =
       map (\<lambda>j. (band_label (int j), T_FLOAT (group_mean data a is j))) [0..<length is div a])"

subsection \<open>The locals of runFFT\<close>

text \<open>
  The declarations of \<open>first\<close>, \<open>last\<close> and \<open>aveSamples\<close> in \<open>runFFT\<close>, with their
  failures, for a window of \<open>sz\<close> values.
\<close>

definition band_locals :: "FFTFilter \<Rightarrow> nat \<Rightarrow> error + int \<times> int \<times> int" where
  "band_locals st sz =
    (let n_outputs = int (sz div 2)
     in and_then (int_result (m_lowPass st * n_outputs)) (\<lambda>lo.
        and_then (int_div lo 100) (\<lambda>first.
        and_then (int_result (m_highPass st * n_outputs)) (\<lambda>hi.
        and_then (int_div hi 100) (\<lambda>cut.
        and_then (int_result (n_outputs - cut)) (\<lambda>last.
        and_then (int_result (last - first)) (\<lambda>width.
        and_then (int_div width (m_bands st)) (\<lambda>aveSamples.
          Inr (first, last, aveSamples)))))))))"

text \<open>Their values when no operation fails.\<close>

definition first_bin :: "FFTFilter \<Rightarrow> nat \<Rightarrow> int" where
  "first_bin st sz = (m_lowPass st * int (sz div 2)) sdiv 100"

definition last_bin :: "FFTFilter \<Rightarrow> nat \<Rightarrow> int" where
  "last_bin st sz = int (sz div 2) - (m_highPass st * int (sz div 2)) sdiv 100"

definition ave_samples :: "FFTFilter \<Rightarrow> nat \<Rightarrow> int" where
  "ave_samples st sz = (last_bin st sz - first_bin st sz) sdiv m_bands st"

text \<open>
  A configuration and a window size with which \<open>runFFT\<close> has no undefined behaviour:
  there is a band, no percentage is negative and no product leaves the range of \<open>int\<close>.
  \<open>cfg_ok\<close> is this for a window of \<open>m_samples\<close> values, the only one \<open>processFFT\<close>
  passes to \<open>runFFT\<close>.
\<close>

definition bands_ok :: "FFTFilter \<Rightarrow> nat \<Rightarrow> bool" where
  "bands_ok st sz =
    (m_bands st \<noteq> 0 \<and> 0 \<le> m_lowPass st \<and> 0 \<le> m_highPass st \<and>
     m_lowPass st * int (sz div 2) \<le> INT_MAX \<and>
     m_highPass st * int (sz div 2) \<le> INT_MAX \<and>
     int sz \<le> INT_MAX)"

definition cfg_ok :: "FFTFilter \<Rightarrow> bool" where
  "cfg_ok st = bands_ok st (nat (m_samples st))"

text \<open>Only \<open>handleConfig\<close> changes the configuration.\<close>

definition same_config :: "FFTFilter \<Rightarrow> FFTFilter \<Rightarrow> bool" where
  "same_config st st' =
    (m_asset st' = m_asset st \<and> m_bands st' = m_bands st \<and> m_samples st' = m_samples st \<and>
     m_lowPass st' = m_lowPass st \<and> m_highPass st' = m_highPass st)"

subsection \<open>The buffers\<close>

text \<open>What \<open>processFFT\<close> does to the buffers, and the windows it passes to \<open>runFFT\<close>.\<close>

definition drained :: "FFTFilter \<Rightarrow> buffers \<Rightarrow> buffers" where
  "drained st buf = map (\<lambda>(name, vec). (name, if int (length vec) = m_samples st then [] else vec)) buf"

definition windows :: "FFTFilter \<Rightarrow> buffers \<Rightarrow> real list list" where
  "windows st buf = filter (\<lambda>vec. int (length vec) = m_samples st) (map snd buf)"

text \<open>The values \<open>addFFTAsset\<close> takes from the datapoints of a reading, in their order.\<close>

fun numeric_values :: "Datapoint list \<Rightarrow> (string \<times> real) list" where
  "numeric_values [] = []"
| "numeric_values ((name, dpv) # datapoints) =
    (case dpv of
       T_FLOAT x \<Rightarrow> (name, x) # numeric_values datapoints
     | T_INTEGER n \<Rightarrow> (name, real_of_int n) # numeric_values datapoints
     | _ \<Rightarrow> numeric_values datapoints)"

text \<open>No two of these values of a reading are of one name.\<close>

definition names_once :: "Reading \<Rightarrow> bool" where
  "names_once reading = distinct (map fst (numeric_values (readingData reading)))"

text \<open>The buffer of a name, empty when the map has none.\<close>

definition buffer_of :: "buffers \<Rightarrow> string \<Rightarrow> real list" where
  "buffer_of buf name = (case map_of buf name of None \<Rightarrow> [] | Some vec \<Rightarrow> vec)"

text \<open>The keys of a \<open>std::map\<close> are in increasing order, each once.\<close>

definition map_keys_ok :: "buffers \<Rightarrow> bool" where
  "map_keys_ok buf = (sorted (map fst buf) \<and> distinct (map fst buf))"

definition below_window :: "FFTFilter \<Rightarrow> buffers \<Rightarrow> bool" where
  "below_window st buf = (\<forall>(name, vec)\<in>set buf. int (length vec) < m_samples st)"

text \<open>
  The state between two calls of \<open>ingest\<close> in which the window is of at least one value
  and every buffer is short of it.
\<close>

definition buffers_short :: "FFTFilter \<Rightarrow> bool" where
  "buffers_short st =
     (0 < m_samples st \<and> map_keys_ok (m_buffer st) \<and> below_window st (m_buffer st))"

subsection \<open>Values of the configuration\<close>

text \<open>
  A value that is not a number for \<open>strtol\<close>: after its white space and one sign, if
  there is one, no digit follows.
\<close>

definition no_number :: "string \<Rightarrow> bool" where
  "no_number v =
    (case dropWhile isspace v of
       [] \<Rightarrow> True
     | c # cs \<Rightarrow>
         if c = CHR ''-'' \<or> c = CHR ''+'' then (case cs of [] \<Rightarrow> True | d # ds \<Rightarrow> \<not> isdigit d)
         else \<not> isdigit c)"

subsection \<open>Processing once in a call\<close>

text \<open>
  The call of \<open>ingest\<close> as the specification words it, for comparison with \<open>ingest\<close>:
  every reading of the batch is buffered or passed on, and then the buffers are processed
  once, before the call returns.
\<close>

fun buffer_batch :: "Reading list \<Rightarrow> FFTFilter \<Rightarrow> Reading list \<Rightarrow> FFTFilter \<times> Reading list" where
  "buffer_batch [] st out = (st, out)"
| "buffer_batch (reading # readings) st out =
    (if assetName reading = m_asset st
     then buffer_batch readings (addFFTAsset reading st) out
     else buffer_batch readings st (out @ [reading]))"

definition ingest_once :: "fft_fn \<Rightarrow> Reading list \<Rightarrow> Reading list \<Rightarrow> FFTFilter
    \<Rightarrow> error + (FFTFilter \<times> Reading list \<times> Reading list)" where
  "ingest_once F readings out st =
    (case buffer_batch readings st out of
       (st1, out1) \<Rightarrow>
         (case processFFT F st1 out1 of
            Inl e \<Rightarrow> Inl e
          | Inr (st', out') \<Rightarrow> Inr (st', [], out')))"

subsection \<open>Examples\<close>

text \<open>
  Filters of the asset \<open>vib\<close> and readings for them. \<open>F_id\<close> leaves the array as it is,
  which is what the transform of a window of zeros does; \<open>F_first\<close> changes the real
  part of bin 0.
\<close>

definition F_id :: fft_fn where
  "F_id data n isign = data"

definition F_first :: fft_fn where
  "F_first data n isign = data[0 := 1]"

definition vib_filter :: "int \<Rightarrow> int \<Rightarrow> buffers \<Rightarrow> FFTFilter" where
  "vib_filter bands samples buf =
     \<lparr>m_asset = ''vib'', m_bands = bands, m_samples = samples, m_lowPass = 0, m_highPass = 0,
      m_buffer = buf\<rparr>"

definition trimmed_filter :: FFTFilter where
  "trimmed_filter =
     \<lparr>m_asset = ''vib'', m_bands = 2, m_samples = 8, m_lowPass = 25, m_highPass = 25,
      m_buffer = []\<rparr>"

definition vib_reading :: "Datapoint list \<Rightarrow> Reading" where
  "vib_reading datapoints = \<lparr>assetName = ''vib'', readingData = datapoints\<rparr>"

definition other_reading :: "string \<Rightarrow> Reading" where
  "other_reading name = \<lparr>assetName = name, readingData = [(''t'', T_FLOAT 1)]\<rparr>"

declare decimal.simps [simp del]

section \<open>Lemmas\<close>

subsection \<open>The arithmetic and the loop of runFFT\<close>

lemma and_then_Inr [simp]: "and_then (Inr x) f = f x"
  by (simp add: and_then_def)

lemma and_then_Inl [simp]: "and_then (Inl e) f = Inl e"
  by (simp add: and_then_def)

lemma and_then_eq_Inr: "and_then m f = Inr y \<longleftrightarrow> (\<exists>x. m = Inr x \<and> f x = Inr y)"
  by (cases m) simp_all

lemma sdiv_nonneg: "0 \<le> a \<Longrightarrow> 0 < b \<Longrightarrow> a sdiv b = a div (b::int)"
  by (simp add: signed_divide_int_def sgn_if)

lemma int_result_eq_Inr: "int_result x = Inr y \<longleftrightarrow> (y = x \<and> INT_MIN \<le> x \<and> x \<le> INT_MAX)"
  by (auto simp: int_result_def)

lemma int_div_eq_Inr:
  "int_div a b = Inr y \<longleftrightarrow> (b \<noteq> 0 \<and> y = a sdiv b \<and> INT_MIN \<le> a sdiv b \<and> a sdiv b \<le> INT_MAX)"
  by (auto simp: int_div_def int_result_eq_Inr)

lemma absValue_at_eq_Inr: "absValue_at dsize data i = Inr a \<longleftrightarrow> (in_bounds dsize i \<and> a = magnitude data i)"
  by (auto simp: absValue_at_def in_bounds_def and_then_eq_Inr int_result_eq_Inr INT_MIN_def)

lemma band_loop_eq_Inr:
  "band_loop dsize data ave is s = Inr s' \<longleftrightarrow>
     ((\<forall>i\<in>set is. in_bounds dsize i) \<and> s' = band_fold data ave is s)"
proof (induction "is" arbitrary: s)
  case Nil
  show ?case by (auto simp: band_fold_def)
next
  case (Cons i "is")
  show ?case
  proof (cases "absValue_at dsize data i")
    case (Inl e)
    then have "\<not> in_bounds dsize i"
      using absValue_at_eq_Inr[of dsize data i] by auto
    with Inl show ?thesis by simp
  next
    case (Inr a)
    then have "in_bounds dsize i" "a = magnitude data i"
      by (simp_all add: absValue_at_eq_Inr)
    with Inr Cons.IH show ?thesis by (simp add: band_fold_def)
  qed
qed

lemma band_fold_snoc:
  "band_fold data ave (is @ [i]) s = band_step ave i (magnitude data i) (band_fold data ave is s)"
  by (simp add: band_fold_def)

lemma band_fold_cong:
  "(\<And>i. i \<in> set is \<Longrightarrow> magnitude d1 i = magnitude d2 i) \<Longrightarrow> band_fold d1 ave is s = band_fold d2 ave is s"
  by (induction "is" arbitrary: s) (simp_all add: band_fold_def)

lemma labelled_init: "labelled init_band_state"
  by (simp add: labelled_def init_band_state_def)

lemma labelled_step: "labelled s \<Longrightarrow> labelled (band_step ave i a s)"
  by (auto simp: labelled_def band_step_def Let_def)

lemma labelled_fold: "labelled s \<Longrightarrow> labelled (band_fold data ave is s)"
  by (induction "is" arbitrary: s) (simp_all add: band_fold_def labelled_step)

text \<open>Without a positive \<open>aveSamples\<close> the counter never meets it.\<close>

lemma no_band_step:
  "ave \<le> 0 \<Longrightarrow> 0 \<le> l_cnt s \<Longrightarrow>
   l_datapoints (band_step ave i a s) = l_datapoints s \<and> 0 \<le> l_cnt (band_step ave i a s)"
  by (auto simp: band_step_def Let_def)

lemma no_band_fold:
  "ave \<le> 0 \<Longrightarrow> 0 \<le> l_cnt s \<Longrightarrow>
   l_datapoints (band_fold data ave is s) = l_datapoints s \<and> 0 \<le> l_cnt (band_fold data ave is s)"
proof (induction "is" arbitrary: s)
  case Nil
  then show ?case by (simp add: band_fold_def)
next
  case (Cons i "is")
  from no_band_step[OF Cons.prems, of i "magnitude data i"]
  have "l_datapoints (band_step ave i (magnitude data i) s) = l_datapoints s"
    and "0 \<le> l_cnt (band_step ave i (magnitude data i) s)" by simp_all
  with Cons.IH[OF Cons.prems(1), of "band_step ave i (magnitude data i) s"]
  show ?case by (simp add: band_fold_def)
qed

lemma peak_step:
  "peak_from data I s \<Longrightarrow> peak_from data (insert i I) (band_step ave i (magnitude data i) s)"
  by (auto simp: peak_from_def band_step_def Let_def)

lemma peak_from_mono: "peak_from data I s \<Longrightarrow> I \<subseteq> J \<Longrightarrow> peak_from data J s"
  by (auto simp: peak_from_def)

lemma peak_fold:
  "peak_from data I s \<Longrightarrow> peak_from data (I \<union> set is) (band_fold data ave is s)"
proof (induction "is" arbitrary: s I)
  case Nil
  then show ?case by (simp add: band_fold_def)
next
  case (Cons i "is")
  from Cons.IH[OF peak_step[OF Cons.prems, of i ave]]
  show ?case by (simp add: band_fold_def)
qed

lemma group_mean_snoc:
  "j * a + a \<le> length is \<Longrightarrow> group_mean data a (is @ [i]) j = group_mean data a is j"
  by (simp add: group_mean_def)

lemma group_bound: "j < q \<Longrightarrow> q * a \<le> n \<Longrightarrow> j * a + a \<le> (n::nat)"
proof -
  assume "j < q" "q * a \<le> n"
  then have "Suc j * a \<le> q * a" by (intro mult_le_mono1) simp
  with \<open>q * a \<le> n\<close> show ?thesis by simp
qed

lemma grouped_step:
  assumes a: "0 < a" and g: "grouped data a is s"
  shows "grouped data a (is @ [i]) (band_step (int a) i (magnitude data i) s)"
proof -
  let ?n = "length is" and ?m = "magnitude data i"
  let ?q = "?n div a" and ?r = "?n mod a"
  have qa: "?q * a \<le> ?n" by simp
  have n: "?n = ?q * a + ?r" by simp
  have old: "\<And>j. j < ?q \<Longrightarrow> group_mean data a (is @ [i]) j = group_mean data a is j"
    using group_bound[OF _ qa] by (simp add: group_mean_snoc)
  have dps: "map (\<lambda>j. (band_label (int j), T_FLOAT (group_mean data a (is @ [i]) j))) [0..<?q]
      = l_datapoints s"
    using g old by (simp add: grouped_def)
  let ?s' = "band_step (int a) i ?m s"
  show ?thesis
  proof (cases "Suc ?r = a")
    case True
    have m0: "Suc ?n mod a = 0" using True a n by (metis mod_Suc)
    have d1: "Suc ?n div a = Suc ?q" using True a by (simp add: div_Suc m0)
    have "?q * a + Suc ?r = Suc ?n" by (simp only: add_Suc_right div_mult_mod_eq)
    then have "?q * a + a = Suc ?n" by (simp only: True)
    then have full: "Suc ?q * a = Suc ?n" by (simp add: add.commute)
    have len: "length (drop (?q * a) is) = ?r" by (simp add: minus_mult_div_eq_mod mult.commute)
    have last: "group_mean data a (is @ [i]) ?q = (l_sum s + ?m) / real a"
      using g len True qa by (simp add: group_mean_def grouped_def)
    have cnt: "l_cnt s + 1 = int a" using g True by (simp add: grouped_def)
    have f1: "l_cnt ?s' = 0" "l_band ?s' = l_band s + 1" "l_sum ?s' = 0"
      "l_datapoints ?s' = l_datapoints s @ [(band_label (l_band s), T_FLOAT ((l_sum s + ?m) / real a))]"
      using cnt by (simp_all add: band_step_def Let_def)
    have tail: "drop (Suc ?q * a) (is @ [i]) = []" unfolding full by simp
    have c1: "l_cnt ?s' = int (length (is @ [i]) mod a)" using f1 m0 by simp
    have c2: "l_band ?s' = int (length (is @ [i]) div a)" using f1 d1 g by (simp add: grouped_def)
    have c3: "l_sum ?s' = sum_list (map (magnitude data) (drop (length (is @ [i]) div a * a) (is @ [i])))"
      using f1 tail d1 by (simp del: drop_append mult_Suc)
    have c4: "l_datapoints ?s' =
       map (\<lambda>j. (band_label (int j), T_FLOAT (group_mean data a (is @ [i]) j))) [0..<length (is @ [i]) div a]"
      using f1 dps last d1 g by (simp add: grouped_def)
    show ?thesis unfolding grouped_def using c1 c2 c3 c4 by blast
  next
    case False
    have lt: "Suc ?r < a" using False a by (simp add: Suc_lessI)
    have m1: "Suc ?n mod a = Suc ?r" using False by (simp add: mod_Suc)
    have d1: "Suc ?n div a = ?q" using False m1 by (simp add: div_Suc)
    have cnt: "l_cnt s + 1 \<noteq> int a" using g lt by (simp add: grouped_def)
    have f1: "l_cnt ?s' = l_cnt s + 1" "l_band ?s' = l_band s" "l_sum ?s' = l_sum s + ?m"
      "l_datapoints ?s' = l_datapoints s"
      using cnt by (simp_all add: band_step_def Let_def)
    have c1: "l_cnt ?s' = int (length (is @ [i]) mod a)" using f1 m1 g by (simp add: grouped_def)
    have c2: "l_band ?s' = int (length (is @ [i]) div a)" using f1 d1 g by (simp add: grouped_def)
    have c3: "l_sum ?s' = sum_list (map (magnitude data) (drop (length (is @ [i]) div a * a) (is @ [i])))"
      using f1 d1 qa g by (simp add: grouped_def)
    have c4: "l_datapoints ?s' =
       map (\<lambda>j. (band_label (int j), T_FLOAT (group_mean data a (is @ [i]) j))) [0..<length (is @ [i]) div a]"
      using f1 dps d1 by simp
    show ?thesis unfolding grouped_def using c1 c2 c3 c4 by blast
  qed
qed

lemma grouped_init: "grouped data a [] init_band_state"
  by (simp add: grouped_def init_band_state_def)

lemma grouped_fold:
  "0 < a \<Longrightarrow> grouped data a is (band_fold data (int a) is init_band_state)"
proof (induction "is" rule: rev_induct)
  case Nil
  show ?case by (simp add: band_fold_def grouped_init)
next
  case (snoc i "is")
  then show ?case by (simp add: band_fold_snoc grouped_step)
qed

lemma runFFT_bands_Inr:
  assumes "runFFT_bands F st values = Inr s"
  shows "s = band_fold (F (complex_data values) (length values) 1) (ave_samples st (length values))
               [first_bin st (length values)..last_bin st (length values) - 1] init_band_state"
    and "m_bands st \<noteq> 0"
    and "\<forall>i\<in>{first_bin st (length values)..<last_bin st (length values)}. in_bounds (length values * 2) i"
  using assms
  by (auto simp: runFFT_bands_def Let_def and_then_eq_Inr int_result_eq_Inr int_div_eq_Inr
        band_loop_eq_Inr first_bin_def last_bin_def ave_samples_def)

lemma sdiv_abs_le: "\<bar>a sdiv b\<bar> \<le> \<bar>a::int\<bar>"
  using sdiv_int_range[of a b] by auto

lemma bins_floor:
  assumes "0 \<le> m_lowPass st" "0 \<le> m_highPass st"
  shows "first_bin st sz = m_lowPass st * int (sz div 2) div 100"
    and "last_bin st sz = int (sz div 2) - m_highPass st * int (sz div 2) div 100"
  using assms by (simp_all add: first_bin_def last_bin_def sdiv_nonneg)

lemma bins_range:
  assumes "0 \<le> m_lowPass st" "0 \<le> m_highPass st"
  shows "0 \<le> first_bin st sz" and "last_bin st sz \<le> int (sz div 2)"
    and "first_bin st sz \<le> m_lowPass st * int (sz div 2)"
    and "int (sz div 2) - m_highPass st * int (sz div 2) \<le> last_bin st sz"
proof -
  have lo: "0 \<le> m_lowPass st * int (sz div 2)" using assms by simp
  have hi: "0 \<le> m_highPass st * int (sz div 2)" using assms by simp
  show "0 \<le> first_bin st sz" using lo by (simp add: bins_floor[OF assms] pos_imp_zdiv_nonneg_iff)
  show "last_bin st sz \<le> int (sz div 2)"
    using hi by (simp add: bins_floor[OF assms] pos_imp_zdiv_nonneg_iff)
  show "first_bin st sz \<le> m_lowPass st * int (sz div 2)"
    using lo by (simp add: bins_floor[OF assms] int_div_le_self)
  show "int (sz div 2) - m_highPass st * int (sz div 2) \<le> last_bin st sz"
    using hi by (simp add: bins_floor[OF assms] int_div_le_self)
qed

lemma runFFT_bands_ok:
  assumes ok: "bands_ok st (length values)"
  shows "runFFT_bands F st values =
     Inr (band_fold (F (complex_data values) (length values) 1) (ave_samples st (length values))
            [first_bin st (length values)..last_bin st (length values) - 1] init_band_state)"
proof -
  let ?n = "int (length values div 2)"
  let ?first = "first_bin st (length values)" and ?last = "last_bin st (length values)"
  from ok have lp: "0 \<le> m_lowPass st" and hp: "0 \<le> m_highPass st" and b: "m_bands st \<noteq> 0"
    and lo: "m_lowPass st * ?n \<le> INT_MAX" and hi: "m_highPass st * ?n \<le> INT_MAX"
    and szv: "int (length values) \<le> INT_MAX"
    by (simp_all add: bands_ok_def)
  note r = bins_range[OF lp hp, of "length values"]
  have lo0: "0 \<le> m_lowPass st * ?n" and hi0: "0 \<le> m_highPass st * ?n" using lp hp by simp_all
  have n: "?n * 2 \<le> int (length values)" by simp
  have e1: "int_result (m_lowPass st * ?n) = Inr (m_lowPass st * ?n)"
    using lo lo0 by (simp add: int_result_def INT_MIN_def)
  have e2: "int_div (m_lowPass st * ?n) 100 = Inr ?first"
    using r lo by (simp add: int_div_def int_result_def INT_MIN_def first_bin_def)
  have e3: "int_result (m_highPass st * ?n) = Inr (m_highPass st * ?n)"
    using hi hi0 by (simp add: int_result_def INT_MIN_def)
  have cut: "0 \<le> (m_highPass st * ?n) sdiv 100" "(m_highPass st * ?n) sdiv 100 \<le> m_highPass st * ?n"
    using hi0 by (simp_all add: sdiv_nonneg pos_imp_zdiv_nonneg_iff int_div_le_self)
  have e4: "int_div (m_highPass st * ?n) 100 = Inr ((m_highPass st * ?n) sdiv 100)"
    using cut hi by (simp add: int_div_def int_result_def INT_MIN_def)
  have e5: "int_result (?n - (m_highPass st * ?n) sdiv 100) = Inr ?last"
    using cut hi n szv by (simp add: int_result_def INT_MIN_def INT_MAX_def last_bin_def)
  have "m_lowPass st * ?n div 100 \<le> INT_MAX div 100" using lo by (intro zdiv_mono1) simp_all
  then have f100: "?first \<le> 21474836"
    by (simp add: bins_floor[OF lp hp] INT_MAX_def)
  have "m_highPass st * ?n div 100 \<le> INT_MAX div 100" using hi by (intro zdiv_mono1) simp_all
  then have l100: "- 21474836 \<le> ?last"
    by (simp add: bins_floor[OF lp hp] INT_MAX_def)
  have w: "INT_MIN \<le> ?last - ?first" "?last - ?first \<le> INT_MAX"
    using r f100 l100 n szv by (simp_all add: INT_MIN_def INT_MAX_def)
  have e6: "int_result (?last - ?first) = Inr (?last - ?first)"
    using w by (simp add: int_result_def)
  have "\<bar>(?last - ?first) sdiv m_bands st\<bar> \<le> \<bar>?last - ?first\<bar>" by (rule sdiv_abs_le)
  moreover have "- 2147483647 \<le> ?last - ?first" "?last - ?first \<le> 2147483647"
    using r f100 l100 n szv by (simp_all add: INT_MAX_def)
  ultimately have "- 2147483648 \<le> (?last - ?first) sdiv m_bands st"
    "(?last - ?first) sdiv m_bands st \<le> 2147483647"
    by linarith+
  then have e7: "int_div (?last - ?first) (m_bands st) = Inr (ave_samples st (length values))"
    using b by (simp add: int_div_def int_result_def ave_samples_def INT_MIN_def INT_MAX_def)
  have bnd: "\<forall>i\<in>set [?first..?last - 1]. in_bounds (length values * 2) i"
    using r n szv by (auto simp: in_bounds_def)
  show ?thesis
    unfolding runFFT_bands_def Let_def
    by (simp only: e1 e2 e3 e4 e5 e6 e7 and_then_Inr)
       (simp add: band_loop_eq_Inr bnd)
qed

subsection \<open>processFFT\<close>

lemma runFFT_eq_Inr:
  "runFFT F st out dpName values = Inr out' \<longleftrightarrow>
     (\<exists>s. runFFT_bands F st values = Inr s \<and> out' = out @ [FFT_Reading st s])"
  by (auto simp: runFFT_def and_then_eq_Inr)

lemma processFFT_loop_Inr:
  "processFFT_loop F st buf out = Inr (buf', out') \<Longrightarrow>
     buf' = drained st buf \<and>
     (\<exists>ss. list_all2 (\<lambda>vec s. runFFT_bands F st vec = Inr s) (windows st buf) ss \<and>
           out' = out @ map (FFT_Reading st) ss)"
proof (induction buf arbitrary: out buf' out')
  case Nil
  then show ?case by (simp add: drained_def windows_def)
next
  case (Cons e buf)
  obtain name vec where e: "e = (name, vec)" by (cases e)
  show ?case
  proof (cases "int (length vec) = m_samples st")
    case True
    from Cons.prems e True obtain out1 rest' where
      r: "runFFT F st out name vec = Inr out1" and
      p: "processFFT_loop F st buf out1 = Inr (rest', out')" and
      b: "buf' = (name, []) # rest'"
      by (auto split: sum.splits)
    from r obtain s where s: "runFFT_bands F st vec = Inr s" "out1 = out @ [FFT_Reading st s]"
      by (auto simp: runFFT_eq_Inr)
    from Cons.IH[OF p] obtain ss where
      ih: "rest' = drained st buf" "list_all2 (\<lambda>vec s. runFFT_bands F st vec = Inr s) (windows st buf) ss"
        "out' = out1 @ map (FFT_Reading st) ss" by auto
    have "list_all2 (\<lambda>vec s. runFFT_bands F st vec = Inr s) (windows st (e # buf)) (s # ss)"
      using ih(2) s(1) e True by (simp add: windows_def)
    moreover have "out' = out @ map (FFT_Reading st) (s # ss)" using ih(3) s(2) by simp
    moreover have "buf' = drained st (e # buf)" using b ih(1) e True by (simp add: drained_def)
    ultimately show ?thesis by blast
  next
    case False
    from Cons.prems e False obtain rest' where
      p: "processFFT_loop F st buf out = Inr (rest', out')" and
      b: "buf' = (name, vec) # rest'"
      by (auto split: sum.splits)
    from Cons.IH[OF p] obtain ss where
      ih: "rest' = drained st buf" "list_all2 (\<lambda>vec s. runFFT_bands F st vec = Inr s) (windows st buf) ss"
        "out' = out @ map (FFT_Reading st) ss" by auto
    have "list_all2 (\<lambda>vec s. runFFT_bands F st vec = Inr s) (windows st (e # buf)) ss"
      using ih(2) e False by (simp add: windows_def)
    moreover have "buf' = drained st (e # buf)" using b ih(1) e False by (simp add: drained_def)
    ultimately show ?thesis using ih(3) by blast
  qed
qed

lemma processFFT_loop_ok:
  "(\<And>vec. vec \<in> set (windows st buf) \<Longrightarrow> \<exists>s. runFFT_bands F st vec = Inr s) \<Longrightarrow>
   \<exists>buf' out'. processFFT_loop F st buf out = Inr (buf', out')"
proof (induction buf arbitrary: out)
  case Nil
  show ?case by simp
next
  case (Cons e buf)
  obtain name vec where e: "e = (name, vec)" by (cases e)
  have rest: "\<And>out. \<exists>buf' out'. processFFT_loop F st buf out = Inr (buf', out')"
    using Cons.IH Cons.prems by (simp add: windows_def)
  show ?case
  proof (cases "int (length vec) = m_samples st")
    case True
    then have "vec \<in> set (windows st (e # buf))" using e by (simp add: windows_def)
    then obtain s where "runFFT_bands F st vec = Inr s" using Cons.prems by blast
    then have "runFFT F st out name vec = Inr (out @ [FFT_Reading st s])"
      by (simp add: runFFT_eq_Inr)
    moreover obtain b' o' where "processFFT_loop F st buf (out @ [FFT_Reading st s]) = Inr (b', o')"
      using rest by blast
    ultimately show ?thesis using e True by simp
  next
    case False
    obtain b' o' where "processFFT_loop F st buf out = Inr (b', o')" using rest by blast
    then show ?thesis using e False by simp
  qed
qed

lemma cfg_ok_window:
  "cfg_ok st \<Longrightarrow> vec \<in> set (windows st buf) \<Longrightarrow> \<exists>s. runFFT_bands F st vec = Inr s"
proof -
  assume ok: "cfg_ok st" and "vec \<in> set (windows st buf)"
  then have "int (length vec) = m_samples st" by (simp add: windows_def)
  then have "nat (m_samples st) = length vec" by simp
  with ok have "bands_ok st (length vec)" by (simp add: cfg_ok_def)
  then show ?thesis by (simp add: runFFT_bands_ok)
qed

lemma processFFT_Inr:
  "processFFT F st out = Inr (st', out') \<Longrightarrow>
     st' = st\<lparr>m_buffer := drained st (m_buffer st)\<rparr> \<and>
     (\<exists>ss. list_all2 (\<lambda>vec s. runFFT_bands F st vec = Inr s) (windows st (m_buffer st)) ss \<and>
           out' = out @ map (FFT_Reading st) ss)"
  using processFFT_loop_Inr[of F st "m_buffer st" out]
  by (auto simp: processFFT_def split: sum.splits)

lemma processFFT_ok:
  "cfg_ok st \<Longrightarrow> \<exists>st' out'. processFFT F st out = Inr (st', out')"
  using processFFT_loop_ok[of st "m_buffer st" F out] cfg_ok_window[of st _ "m_buffer st" F]
  by (auto simp: processFFT_def split: sum.splits)

subsection \<open>ingest\<close>

lemma same_config_refl [simp]: "same_config st st"
  by (simp add: same_config_def)

lemma same_config_trans: "same_config a b \<Longrightarrow> same_config b c \<Longrightarrow> same_config a c"
  by (simp add: same_config_def)

lemma same_config_addFFTAsset [simp]: "same_config st (addFFTAsset reading st)"
  by (simp add: same_config_def addFFTAsset_def)

lemma same_config_processFFT: "processFFT F st out = Inr (st', out') \<Longrightarrow> same_config st st'"
  by (auto simp: processFFT_def same_config_def split: sum.splits)

lemma same_config_cfg_ok: "same_config st st' \<Longrightarrow> cfg_ok st' = cfg_ok st"
  by (simp add: same_config_def cfg_ok_def bands_ok_def)

lemma ingest_loop_same_config:
  "ingest_loop F readings st out = Inr (st', out') \<Longrightarrow> same_config st st'"
proof (induction readings arbitrary: st out)
  case Nil
  then show ?case by simp
next
  case (Cons r readings)
  show ?case
  proof (cases "assetName r = m_asset st")
    case True
    with Cons.prems obtain st1 out1 where
      p: "processFFT F (addFFTAsset r st) out = Inr (st1, out1)" and
      l: "ingest_loop F readings st1 out1 = Inr (st', out')"
      by (auto split: sum.splits)
    have "same_config st st1"
      using same_config_trans[OF same_config_addFFTAsset same_config_processFFT[OF p]] .
    with Cons.IH[OF l] show ?thesis by (rule same_config_trans[rotated])
  next
    case False
    with Cons.prems Cons.IH show ?thesis by simp
  qed
qed

lemma ingest_loop_append:
  "ingest_loop F (as @ bs) st out =
     (case ingest_loop F as st out of
        Inl e \<Rightarrow> Inl e
      | Inr (st', out') \<Rightarrow> ingest_loop F bs st' out')"
  by (induction as arbitrary: st out) (auto split: sum.splits)

lemma shuffles_prepend_right: "zs \<in> shuffles xs ys \<Longrightarrow> ps @ zs \<in> shuffles xs (ps @ ys)"
  by (induction ps) (simp_all add: Cons_in_shuffles_rightI)

lemma ingest_loop_out:
  "ingest_loop F readings st out = Inr (st', out') \<Longrightarrow>
   \<exists>ds. (\<forall>d\<in>set ds. assetName d = m_asset st @ '' FFT'') \<and>
     (\<exists>new. out' = out @ new \<and>
        new \<in> shuffles (filter (\<lambda>r. assetName r \<noteq> m_asset st) readings) ds)"
proof (induction readings arbitrary: st out)
  case Nil
  then have "out' = out @ [] \<and> [] \<in> shuffles (filter (\<lambda>r. assetName r \<noteq> m_asset st) []) []"
    by simp
  then show ?case by (intro exI[of _ "[]"]) auto
next
  case (Cons r readings)
  let ?pass = "\<lambda>rs. filter (\<lambda>r. assetName r \<noteq> m_asset st) rs"
  show ?case
  proof (cases "assetName r = m_asset st")
    case True
    with Cons.prems obtain st1 out1 where
      p: "processFFT F (addFFTAsset r st) out = Inr (st1, out1)" and
      l: "ingest_loop F readings st1 out1 = Inr (st', out')"
      by (auto split: sum.splits)
    from processFFT_Inr[OF p] obtain ss where o1: "out1 = out @ map (FFT_Reading (addFFTAsset r st)) ss"
      by blast
    have a: "m_asset st1 = m_asset st"
      using same_config_processFFT[OF p] by (simp add: same_config_def addFFTAsset_def)
    from Cons.IH[OF l] a obtain ds new where
      ds: "\<forall>d\<in>set ds. assetName d = m_asset st @ '' FFT''" and
      new: "out' = out1 @ new" "new \<in> shuffles (?pass readings) ds"
      by auto
    let ?d0 = "map (FFT_Reading (addFFTAsset r st)) ss"
    have "\<forall>d\<in>set (?d0 @ ds). assetName d = m_asset st @ '' FFT''"
      using ds by (auto simp: FFT_Reading_def addFFTAsset_def)
    moreover have "out' = out @ (?d0 @ new)" using new(1) o1 by simp
    moreover have "?d0 @ new \<in> shuffles (?pass (r # readings)) (?d0 @ ds)"
      using shuffles_prepend_right[OF new(2)] True by simp
    ultimately show ?thesis by blast
  next
    case False
    with Cons.prems have l: "ingest_loop F readings st (out @ [r]) = Inr (st', out')" by simp
    from Cons.IH[OF l] obtain ds new where
      ds: "\<forall>d\<in>set ds. assetName d = m_asset st @ '' FFT''" and
      new: "out' = (out @ [r]) @ new" "new \<in> shuffles (?pass readings) ds"
      by auto
    have "out' = out @ (r # new)" using new(1) by simp
    moreover have "r # new \<in> shuffles (?pass (r # readings)) ds"
      using new(2) False by (simp add: Cons_in_shuffles_leftI)
    ultimately show ?thesis using ds by blast
  qed
qed

lemma ingest_loop_ok:
  "cfg_ok st \<Longrightarrow> \<exists>st' out'. ingest_loop F readings st out = Inr (st', out')"
proof (induction readings arbitrary: st out)
  case Nil
  show ?case by simp
next
  case (Cons r readings)
  show ?case
  proof (cases "assetName r = m_asset st")
    case True
    have "cfg_ok (addFFTAsset r st)"
      using Cons.prems same_config_cfg_ok[OF same_config_addFFTAsset] by simp
    from processFFT_ok[OF this] obtain st1 out1 where
      p: "processFFT F (addFFTAsset r st) out = Inr (st1, out1)" by blast
    have "cfg_ok st1"
      using Cons.prems same_config_cfg_ok[OF same_config_processFFT[OF p]]
        same_config_cfg_ok[OF same_config_addFFTAsset, of r st] by simp
    from Cons.IH[OF this] p True show ?thesis by simp
  next
    case False
    with Cons.IH[OF Cons.prems] show ?thesis by simp
  qed
qed

subsection \<open>The buffers\<close>

lemma addFFTAsset_loop_fold:
  "addFFTAsset_loop datapoints buf =
     foldl (\<lambda>b (name, x). buffer_add name x b) buf (numeric_values datapoints)"
proof (induction datapoints arbitrary: buf)
  case Nil
  show ?case by simp
next
  case (Cons dp datapoints)
  obtain name dpv where "dp = (name, dpv)" by (cases dp)
  with Cons.IH show ?case by (cases dpv) simp_all
qed

lemma map_of_push:
  "map_of (map (\<lambda>(k, vec). if k = name then (k, vec @ [v]) else (k, vec)) buf) c =
     (if c = name then map_option (\<lambda>vec. vec @ [v]) (map_of buf c) else map_of buf c)"
  by (induction buf) auto

lemma map_of_insort:
  "map_of buf name = None \<Longrightarrow>
   map_of (insort_key fst (name, vec) buf) c = (if c = name then Some vec else map_of buf c)"
  by (induction buf) (auto split: if_splits)

lemma map_of_buffer_add:
  "map_of (buffer_add name v buf) c =
     (if c = name then Some (buffer_of buf name @ [v]) else map_of buf c)"
  by (cases "map_of buf name") (simp_all add: buffer_add_def buffer_of_def map_of_push map_of_insort)

lemma keys_push:
  "map fst (map (\<lambda>(k, vec). if k = name then (k, vec @ [v]) else (k, vec)) buf) = map fst buf"
  by (induction buf) auto

lemma map_keys_ok_buffer_add: "map_keys_ok buf \<Longrightarrow> map_keys_ok (buffer_add name v buf)"
proof (cases "map_of buf name")
  case None
  assume ok: "map_keys_ok buf"
  from None have notin: "name \<notin> fst ` set buf" by (simp add: map_of_eq_None_iff)
  have "distinct (map fst (insort_key fst (name, [v]) buf))"
    using ok notin by (simp add: map_keys_ok_def distinct_insort_key)
  then show ?thesis using ok None by (simp add: buffer_add_def map_keys_ok_def sorted_insort_key)
next
  case (Some vec)
  assume "map_keys_ok buf"
  with Some show ?thesis by (simp add: buffer_add_def map_keys_ok_def keys_push del: map_map)
qed

lemma map_keys_ok_fold:
  "map_keys_ok buf \<Longrightarrow> map_keys_ok (foldl (\<lambda>b (name, x). buffer_add name x b) buf sm)"
  by (induction sm arbitrary: buf) (auto simp: map_keys_ok_buffer_add)

lemma buffer_of_buffer_add:
  "buffer_of (buffer_add name v buf) c = (if c = name then buffer_of buf name @ [v] else buffer_of buf c)"
  by (simp add: buffer_of_def map_of_buffer_add)

lemma map_of_fold_add:
  "distinct (map fst sm) \<Longrightarrow>
   map_of (foldl (\<lambda>b (name, x). buffer_add name x b) buf sm) c =
     (case map_of sm c of None \<Rightarrow> map_of buf c | Some x \<Rightarrow> Some (buffer_of buf c @ [x]))"
proof (induction sm arbitrary: buf)
  case Nil
  show ?case by simp
next
  case (Cons e sm)
  obtain name x where e: "e = (name, x)" by (cases e)
  from Cons.prems e have d: "distinct (map fst sm)" and n: "map_of sm name = None"
    by (auto simp: map_of_eq_None_iff)
  show ?case
  proof (cases "c = name")
    case True
    with Cons.IH[OF d, of "buffer_add name x buf"] n e show ?thesis
      by (simp add: map_of_buffer_add)
  next
    case False
    with Cons.IH[OF d, of "buffer_add name x buf"] e show ?thesis
      by (simp add: map_of_buffer_add buffer_of_buffer_add split: option.splits)
  qed
qed

lemma map_keys_ok_drained: "map_keys_ok (drained st buf) = map_keys_ok buf"
proof -
  have "map fst (drained st buf) = map fst buf" by (induction buf) (auto simp: drained_def)
  then show ?thesis by (simp add: map_keys_ok_def)
qed

lemma below_window_drained:
  "0 < m_samples st \<Longrightarrow> \<forall>(name, vec)\<in>set buf. int (length vec) \<le> m_samples st \<Longrightarrow>
   below_window st (drained st buf)"
  by (fastforce simp: below_window_def drained_def)

lemma at_most_window_after_add:
  assumes ok: "map_keys_ok buf" and b: "below_window st buf" and d: "distinct (map fst sm)"
    and pos: "0 < m_samples st"
  shows "\<forall>(name, vec)\<in>set (foldl (\<lambda>b (name, x). buffer_add name x b) buf sm).
           int (length vec) \<le> m_samples st"
proof (clarify)
  fix name vec
  let ?buf1 = "foldl (\<lambda>b (name, x). buffer_add name x b) buf sm"
  assume "(name, vec) \<in> set ?buf1"
  moreover have "distinct (map fst ?buf1)" using map_keys_ok_fold[OF ok] by (simp add: map_keys_ok_def)
  ultimately have m: "map_of ?buf1 name = Some vec" by simp
  have old: "int (length (buffer_of buf name)) < m_samples st"
  proof (cases "map_of buf name")
    case None
    then show ?thesis using pos by (simp add: buffer_of_def)
  next
    case (Some old)
    then have "(name, old) \<in> set buf" by (rule map_of_SomeD)
    with b Some show ?thesis by (auto simp: below_window_def buffer_of_def)
  qed
  show "int (length vec) \<le> m_samples st"
  proof (cases "map_of sm name")
    case None
    with m map_of_fold_add[OF d, of buf name] have "map_of buf name = Some vec" by simp
    then have "(name, vec) \<in> set buf" by (rule map_of_SomeD)
    with b show ?thesis by (auto simp: below_window_def)
  next
    case (Some x)
    with m map_of_fold_add[OF d, of buf name] have v: "vec = buffer_of buf name @ [x]" by simp
    show ?thesis using old by (simp add: v)
  qed
qed

subsection \<open>The reading of bands\<close>

lemma decimal_digit: "n < 10 \<Longrightarrow> decimal n = [digit_char n]"
  by (simp add: decimal.simps)

lemmas run_simps =
  runFFT_def runFFT_bands_def FFT_Reading_def int_result_def int_div_def INT_MAX_def INT_MIN_def
  complex_data_def init_band_state_def absValue_at_def magnitude_def band_step_def band_label_def
  fmt_02d_def digit_char_def upto.simps F_id_def vib_filter_def vib_reading_def
  decimal_digit signed_divide_int_def processFFT_def ingest_def addFFTAsset_def buffer_add_def

lemma band_label_two_digits:
  "j < 100 \<Longrightarrow> band_label (int j) = ''Band '' @ [digit_char (j div 10), digit_char (j mod 10)]"
proof (cases "j < 10")
  case True
  then show ?thesis by (simp add: band_label_def fmt_02d_def decimal_digit digit_char_def)
next
  case False
  assume "j < 100"
  then have "j div 10 < 10" by simp
  then have "decimal j = [digit_char (j div 10), digit_char (j mod 10)]"
    using False by (simp add: decimal.simps[of j] decimal_digit)
  with False show ?thesis by (simp add: band_label_def fmt_02d_def)
qed

lemma decimal_length: "1 \<le> length (decimal n)"
  by (subst decimal.simps) simp

lemma decimal_three_digits: "100 \<le> n \<Longrightarrow> 3 \<le> length (decimal n)"
proof -
  assume n: "100 \<le> n"
  then have d: "\<not> n < 10" "\<not> n div 10 < 10" by simp_all
  have "decimal n = (decimal (n div 10 div 10) @ [digit_char (n div 10 mod 10)]) @ [digit_char (n mod 10)]"
    using d by (simp add: decimal.simps[of n] decimal.simps[of "n div 10"])
  then show ?thesis using decimal_length[of "n div 10 div 10"] by simp
qed

lemma band_label_large: "100 \<le> j \<Longrightarrow> band_label (int j) = ''Band '' @ decimal j"
  by (simp add: band_label_def fmt_02d_def)

lemma band_label_prefix: "take 5 (band_label b) = ''Band ''"
  by (simp add: band_label_def)

text \<open>
  Claim C6, as amended. The reading that \<open>runFFT\<close> adds to \<open>out\<close> is named after the
  monitored asset, followed by \<open>FFT\<close> after a space. Its datapoints are the band
  amplitudes, in the order of the bands, each a floating point value labelled \<open>Band\<close>,
  a space and the index of the band counted from 0, printed with \<open>%02d\<close>: two digits
  below 100, and all the digits of the index, three or more, from 100 on. No datapoint
  has another label, so none holds the peak, although the locals \<open>l_peak\<close> and
  \<open>l_peakf\<close> of the state \<open>s\<close> after the loop hold it.
\<close>

theorem derived_reading_format:
  assumes "runFFT F st out dpName values = Inr out'"
  shows "\<exists>r s. out' = out @ [r] \<and> runFFT_bands F st values = Inr s \<and>
           readingData r = l_datapoints s \<and>
           assetName r = m_asset st @ '' FFT'' \<and>
           map fst (readingData r) = map (\<lambda>j. band_label (int j)) [0..<length (readingData r)] \<and>
           (\<forall>j<length (readingData r). j < 100 \<longrightarrow>
              fst (readingData r ! j) = ''Band '' @ [digit_char (j div 10), digit_char (j mod 10)]) \<and>
           (\<forall>j<length (readingData r). 100 \<le> j \<longrightarrow>
              fst (readingData r ! j) = ''Band '' @ decimal j \<and> 3 \<le> length (decimal j)) \<and>
           (\<forall>dp\<in>set (readingData r). (\<exists>x. snd dp = T_FLOAT x) \<and> take 5 (fst dp) = ''Band '')"
proof -
  from assms obtain s where s: "runFFT_bands F st values = Inr s" and o: "out' = out @ [FFT_Reading st s]"
    by (auto simp: runFFT_eq_Inr)
  let ?r = "FFT_Reading st s"
  have "labelled s"
    unfolding runFFT_bands_Inr(1)[OF s] by (rule labelled_fold[OF labelled_init])
  then have names: "map fst (l_datapoints s) = map (\<lambda>j. band_label (int j)) [0..<length (l_datapoints s)]"
    and floats: "\<forall>dp\<in>set (l_datapoints s). \<exists>x. snd dp = T_FLOAT x"
    by (simp_all add: labelled_def)
  have nth: "\<And>j. j < length (l_datapoints s) \<Longrightarrow> fst (l_datapoints s ! j) = band_label (int j)"
  proof -
    fix j assume j: "j < length (l_datapoints s)"
    then have "fst (l_datapoints s ! j) = map fst (l_datapoints s) ! j" by simp
    also have "\<dots> = map (\<lambda>j. band_label (int j)) [0..<length (l_datapoints s)] ! j"
      using names by simp
    also have "\<dots> = band_label (int j)" using j by simp
    finally show "fst (l_datapoints s ! j) = band_label (int j)" .
  qed
  have two: "\<forall>j<length (l_datapoints s). j < 100 \<longrightarrow>
      fst (l_datapoints s ! j) = ''Band '' @ [digit_char (j div 10), digit_char (j mod 10)]"
    using nth band_label_two_digits by simp
  have three: "\<forall>j<length (l_datapoints s). 100 \<le> j \<longrightarrow>
      fst (l_datapoints s ! j) = ''Band '' @ decimal j \<and> 3 \<le> length (decimal j)"
    using nth band_label_large decimal_three_digits by simp
  have pre: "\<forall>dp\<in>set (l_datapoints s). take 5 (fst dp) = ''Band ''"
  proof
    fix dp assume "dp \<in> set (l_datapoints s)"
    then obtain j where "j < length (l_datapoints s)" "dp = l_datapoints s ! j"
      by (auto simp: in_set_conv_nth)
    with nth show "take 5 (fst dp) = ''Band ''" by (simp add: band_label_prefix)
  qed
  have "out' = out @ [?r] \<and> runFFT_bands F st values = Inr s \<and>
           readingData ?r = l_datapoints s \<and>
           assetName ?r = m_asset st @ '' FFT'' \<and>
           map fst (readingData ?r) = map (\<lambda>j. band_label (int j)) [0..<length (readingData ?r)] \<and>
           (\<forall>j<length (readingData ?r). j < 100 \<longrightarrow>
              fst (readingData ?r ! j) = ''Band '' @ [digit_char (j div 10), digit_char (j mod 10)]) \<and>
           (\<forall>j<length (readingData ?r). 100 \<le> j \<longrightarrow>
              fst (readingData ?r ! j) = ''Band '' @ decimal j \<and> 3 \<le> length (decimal j)) \<and>
           (\<forall>dp\<in>set (readingData ?r). (\<exists>x. snd dp = T_FLOAT x) \<and> take 5 (fst dp) = ''Band '')"
    using o s names floats two three pre by (simp add: FFT_Reading_def)
  then show ?thesis by blast
qed

lemma run_example:
  "runFFT F_id (vib_filter 2 8 []) [] ''x'' [0, 0, 0, 0, 0, 0, 0, 0] =
     Inr [\<lparr>assetName = ''vib FFT'', readingData = [(''Band 00'', T_FLOAT 0), (''Band 01'', T_FLOAT 0)]\<rparr>]"
  by (simp add: run_simps)

text \<open>The amended claim at a window of eight zeros, with two bands.\<close>

theorem derived_reading_format_witness:
  "runFFT F_id (vib_filter 2 8 []) [] ''x'' [0, 0, 0, 0, 0, 0, 0, 0] =
     Inr [\<lparr>assetName = ''vib FFT'', readingData = [(''Band 00'', T_FLOAT 0), (''Band 01'', T_FLOAT 0)]\<rparr>] \<and>
   (\<exists>s. runFFT_bands F_id (vib_filter 2 8 []) [0, 0, 0, 0, 0, 0, 0, 0] = Inr s \<and>
        l_datapoints s = [(''Band 00'', T_FLOAT 0), (''Band 01'', T_FLOAT 0)])"
  using derived_reading_format[OF run_example] run_example by auto

subsection \<open>Readings of other assets\<close>

lemma shuffles_subseq: "zs \<in> shuffles xs ys \<Longrightarrow> subseq xs zs"
  by (induction xs ys arbitrary: zs rule: shuffles.induct) auto

lemma ingest_eq_Inr:
  "ingest F readings out st = Inr (st', rs', out') \<longleftrightarrow>
     (rs' = [] \<and> ingest_loop F readings st out = Inr (st', out'))"
  by (auto simp: ingest_def split: sum.splits)

text \<open>
  Claim C5. When \<open>ingest\<close> returns, what it added to \<open>out\<close> is an interleaving of the
  readings of the batch whose asset name is not the monitored one, unchanged and in their
  order, with readings \<open>ds\<close> named after the monitored asset and \<open>FFT\<close>. So no reading
  with the monitored name is in it. With a configuration that keeps \<open>runFFT\<close> defined,
  \<open>ingest\<close> returns.
\<close>

theorem ingest_pass_through:
  "(cfg_ok st \<longrightarrow> (\<exists>st' out'. ingest F readings out st = Inr (st', [], out'))) \<and>
   (\<forall>st' rs' out'. ingest F readings out st = Inr (st', rs', out') \<longrightarrow>
      (\<exists>new ds. out' = out @ new \<and>
          new \<in> shuffles (filter (\<lambda>r. assetName r \<noteq> m_asset st) readings) ds \<and>
          (\<forall>d\<in>set ds. assetName d = m_asset st @ '' FFT'') \<and>
          subseq (filter (\<lambda>r. assetName r \<noteq> m_asset st) readings) new \<and>
          (\<forall>r\<in>set new. assetName r \<noteq> m_asset st)))"
proof (intro conjI impI allI)
  assume "cfg_ok st"
  from ingest_loop_ok[OF this, of F readings out]
  show "\<exists>st' out'. ingest F readings out st = Inr (st', [], out')"
    by (auto simp: ingest_eq_Inr)
next
  fix st' rs' out'
  let ?pass = "filter (\<lambda>r. assetName r \<noteq> m_asset st) readings"
  assume "ingest F readings out st = Inr (st', rs', out')"
  then have "ingest_loop F readings st out = Inr (st', out')" by (simp add: ingest_eq_Inr)
  from ingest_loop_out[OF this] obtain ds new where
    ds: "\<forall>d\<in>set ds. assetName d = m_asset st @ '' FFT''" and
    new: "out' = out @ new" "new \<in> shuffles ?pass ds" by blast
  have sub: "subseq ?pass new" using new(2) by (rule shuffles_subseq)
  have "set new = set ?pass \<union> set ds" using new(2) by (rule set_shuffles)
  then have "\<forall>r\<in>set new. assetName r \<noteq> m_asset st" using ds by auto
  with ds new sub
  show "\<exists>new ds. out' = out @ new \<and> new \<in> shuffles ?pass ds \<and>
          (\<forall>d\<in>set ds. assetName d = m_asset st @ '' FFT'') \<and> subseq ?pass new \<and>
          (\<forall>r\<in>set new. assetName r \<noteq> m_asset st)"
    by blast
qed

lemmas cfg_simps = cfg_ok_def bands_ok_def vib_filter_def INT_MAX_def

lemma ingest_example:
  "ingest F_id [other_reading ''a'', vib_reading [(''x'', T_FLOAT 0)], vib_reading [(''x'', T_FLOAT 0)],
       other_reading ''b''] [] (vib_filter 1 2 []) =
   Inr (vib_filter 1 2 [(''x'', [])], [],
     [other_reading ''a'', \<lparr>assetName = ''vib FFT'', readingData = [(''Band 00'', T_FLOAT 0)]\<rparr>,
      other_reading ''b''])"
  by (simp add: run_simps other_reading_def)

text \<open>The claim at a batch of four readings, two of them of the monitored asset.\<close>

theorem ingest_pass_through_witness:
  "cfg_ok (vib_filter 1 2 []) \<and>
   (\<exists>new ds.
      [other_reading ''a'', \<lparr>assetName = ''vib FFT'', readingData = [(''Band 00'', T_FLOAT 0)]\<rparr>,
       other_reading ''b''] = [] @ new \<and>
      new \<in> shuffles [other_reading ''a'', other_reading ''b''] ds \<and>
      (\<forall>d\<in>set ds. assetName d = ''vib FFT'') \<and>
      subseq [other_reading ''a'', other_reading ''b''] new \<and>
      (\<forall>r\<in>set new. assetName r \<noteq> ''vib''))"
proof -
  have ok: "cfg_ok (vib_filter 1 2 [])" by (simp add: cfg_simps)
  have f: "filter (\<lambda>r. assetName r \<noteq> ''vib'')
       [other_reading ''a'', vib_reading [(''x'', T_FLOAT 0)], vib_reading [(''x'', T_FLOAT 0)],
        other_reading ''b''] = [other_reading ''a'', other_reading ''b'']"
    by (simp add: vib_reading_def other_reading_def)
  have a: "m_asset (vib_filter 1 2 []) = ''vib''" by (simp add: vib_filter_def)
  let ?batch = "[other_reading ''a'', vib_reading [(''x'', T_FLOAT 0)],
      vib_reading [(''x'', T_FLOAT 0)], other_reading ''b'']"
  let ?out = "[other_reading ''a'',
      \<lparr>assetName = ''vib FFT'', readingData = [(''Band 00'', T_FLOAT 0)]\<rparr>, other_reading ''b'']"
  have "\<forall>st' rs' out'. ingest F_id ?batch [] (vib_filter 1 2 []) = Inr (st', rs', out') \<longrightarrow>
      (\<exists>new ds. out' = [] @ new \<and>
          new \<in> shuffles (filter (\<lambda>r. assetName r \<noteq> m_asset (vib_filter 1 2 [])) ?batch) ds \<and>
          (\<forall>d\<in>set ds. assetName d = m_asset (vib_filter 1 2 []) @ '' FFT'') \<and>
          subseq (filter (\<lambda>r. assetName r \<noteq> m_asset (vib_filter 1 2 [])) ?batch) new \<and>
          (\<forall>r\<in>set new. assetName r \<noteq> m_asset (vib_filter 1 2 [])))"
    using ingest_pass_through[of "vib_filter 1 2 []" F_id ?batch "[]"] by (rule conjunct2)
  with ingest_example have "\<exists>new ds. ?out = [] @ new \<and>
          new \<in> shuffles (filter (\<lambda>r. assetName r \<noteq> m_asset (vib_filter 1 2 [])) ?batch) ds \<and>
          (\<forall>d\<in>set ds. assetName d = m_asset (vib_filter 1 2 []) @ '' FFT'') \<and>
          subseq (filter (\<lambda>r. assetName r \<noteq> m_asset (vib_filter 1 2 [])) ?batch) new \<and>
          (\<forall>r\<in>set new. assetName r \<noteq> m_asset (vib_filter 1 2 []))"
    by blast
  then have "\<exists>new ds. ?out = [] @ new \<and>
          new \<in> shuffles [other_reading ''a'', other_reading ''b''] ds \<and>
          (\<forall>d\<in>set ds. assetName d = ''vib'' @ '' FFT'') \<and>
          subseq [other_reading ''a'', other_reading ''b''] new \<and>
          (\<forall>r\<in>set new. assetName r \<noteq> ''vib'')"
    by (simp only: a f)
  then have "\<exists>new ds. ?out = [] @ new \<and>
          new \<in> shuffles [other_reading ''a'', other_reading ''b''] ds \<and>
          (\<forall>d\<in>set ds. assetName d = ''vib FFT'') \<and>
          subseq [other_reading ''a'', other_reading ''b''] new \<and>
          (\<forall>r\<in>set new. assetName r \<noteq> ''vib'')"
    by (simp only: append.simps)
  with ok show ?thesis by (rule conjI)
qed

subsection \<open>A full window\<close>

lemma no_band_window:
  "runFFT_bands F st vec = Inr s \<Longrightarrow> ave_samples st (length vec) \<le> 0 \<Longrightarrow> l_datapoints s = []"
proof -
  assume s: "runFFT_bands F st vec = Inr s" and a: "ave_samples st (length vec) \<le> 0"
  have "0 \<le> l_cnt init_band_state" by (simp add: init_band_state_def)
  from no_band_fold[OF a this] show ?thesis
    unfolding runFFT_bands_Inr(1)[OF s] by (simp add: init_band_state_def)
qed

text \<open>The documented values of the configuration keep \<open>runFFT\<close> defined.\<close>

lemma cfg_ok_documented:
  assumes "1 \<le> m_bands st" "0 \<le> m_lowPass st" "m_lowPass st \<le> 100"
    "0 \<le> m_highPass st" "m_highPass st \<le> 100" "m_samples st \<le> 42949672"
  shows "cfg_ok st"
proof -
  let ?n = "int (nat (m_samples st) div 2)"
  have n: "0 \<le> ?n" "?n \<le> 21474836" using assms(6) by simp_all
  have "m_lowPass st * ?n \<le> 100 * ?n" using assms(3) n(1) by (rule mult_right_mono)
  then have lo: "m_lowPass st * ?n \<le> INT_MAX" using n(2) by (simp add: INT_MAX_def)
  have "m_highPass st * ?n \<le> 100 * ?n" using assms(5) n(1) by (rule mult_right_mono)
  then have hi: "m_highPass st * ?n \<le> INT_MAX" using n(2) by (simp add: INT_MAX_def)
  show ?thesis
    using assms lo hi by (simp add: cfg_ok_def bands_ok_def INT_MAX_def)
qed

lemma sdiv_small: "0 \<le> w \<Longrightarrow> w < b \<Longrightarrow> w sdiv b = (0::int)"
  by (simp add: signed_divide_int_def)

text \<open>
  Claim C10. With a configuration that keeps \<open>runFFT\<close> defined, \<open>processFFT\<close> adds one
  reading to \<open>out\<close> for every buffer that holds \<open>m_samples\<close> values, and empties that
  buffer. When \<open>aveSamples\<close> is not positive, as it is when there are more bands than
  bins between \<open>first\<close> and \<open>last\<close>, each of these readings has no datapoint.
\<close>

theorem full_window_emits:
  assumes "cfg_ok st"
  shows "\<exists>st' ds. processFFT F st out = Inr (st', out @ ds) \<and>
           m_buffer st' = drained st (m_buffer st) \<and>
           length ds = length (windows st (m_buffer st)) \<and>
           (\<forall>d\<in>set ds. assetName d = m_asset st @ '' FFT'') \<and>
           (ave_samples st (nat (m_samples st)) \<le> 0 \<longrightarrow> (\<forall>d\<in>set ds. readingData d = [])) \<and>
           (0 \<le> last_bin st (nat (m_samples st)) - first_bin st (nat (m_samples st)) \<and>
            last_bin st (nat (m_samples st)) - first_bin st (nat (m_samples st)) < m_bands st
              \<longrightarrow> ave_samples st (nat (m_samples st)) = 0)"
proof -
  from processFFT_ok[OF assms] obtain st' out' where p: "processFFT F st out = Inr (st', out')"
    by blast
  from processFFT_Inr[OF p] obtain ss where
    st': "st' = st\<lparr>m_buffer := drained st (m_buffer st)\<rparr>" and
    ss: "list_all2 (\<lambda>vec s. runFFT_bands F st vec = Inr s) (windows st (m_buffer st)) ss" and
    o: "out' = out @ map (FFT_Reading st) ss" by blast
  let ?ds = "map (FFT_Reading st) ss"
  have len: "length ?ds = length (windows st (m_buffer st))"
    using list_all2_lengthD[OF ss] by simp
  have names: "\<forall>d\<in>set ?ds. assetName d = m_asset st @ '' FFT''"
    by (simp add: FFT_Reading_def)
  have empty: "ave_samples st (nat (m_samples st)) \<le> 0 \<longrightarrow> (\<forall>d\<in>set ?ds. readingData d = [])"
  proof (intro impI ballI)
    fix d assume a: "ave_samples st (nat (m_samples st)) \<le> 0" and "d \<in> set ?ds"
    then obtain s where s: "s \<in> set ss" and d: "d = FFT_Reading st s" by auto
    from s obtain j where j: "j < length ss" "s = ss ! j" by (auto simp: in_set_conv_nth)
    let ?vec = "windows st (m_buffer st) ! j"
    have jw: "j < length (windows st (m_buffer st))" using j(1) list_all2_lengthD[OF ss] by simp
    have r: "runFFT_bands F st ?vec = Inr s" using list_all2_nthD2[OF ss j(1)] j(2) by simp
    have "?vec \<in> set (windows st (m_buffer st))" using jw by simp
    then have "int (length ?vec) = m_samples st" by (simp add: windows_def)
    then have "nat (m_samples st) = length ?vec" by simp
    with a have "ave_samples st (length ?vec) \<le> 0" by simp
    from no_band_window[OF r this] d show "readingData d = []" by (simp add: FFT_Reading_def)
  qed
  have zero: "0 \<le> last_bin st (nat (m_samples st)) - first_bin st (nat (m_samples st)) \<and>
            last_bin st (nat (m_samples st)) - first_bin st (nat (m_samples st)) < m_bands st
              \<longrightarrow> ave_samples st (nat (m_samples st)) = 0"
    by (simp add: ave_samples_def sdiv_small)
  have "processFFT F st out = Inr (st', out @ ?ds)" using p o by simp
  moreover have "m_buffer st' = drained st (m_buffer st)" using st' by simp
  ultimately show ?thesis using len names empty zero by blast
qed

lemma process_example:
  "processFFT F_id (vib_filter 2 2 [(''x'', [0, 0]), (''y'', [0])]) [] =
     Inr (vib_filter 2 2 [(''x'', []), (''y'', [0])], [\<lparr>assetName = ''vib FFT'', readingData = []\<rparr>])"
  by (simp add: run_simps)

text \<open>
  The claim at a window of two values and two bands: one bin, \<open>aveSamples\<close> is 0, and the
  reading has no datapoint.
\<close>

theorem full_window_emits_witness:
  "cfg_ok (vib_filter 2 2 [(''x'', [0, 0]), (''y'', [0])]) \<and>
   ave_samples (vib_filter 2 2 [(''x'', [0, 0]), (''y'', [0])]) 2 = 0 \<and>
   processFFT F_id (vib_filter 2 2 [(''x'', [0, 0]), (''y'', [0])]) [] =
     Inr (vib_filter 2 2 [(''x'', []), (''y'', [0])], [\<lparr>assetName = ''vib FFT'', readingData = []\<rparr>]) \<and>
   (\<exists>st' ds. processFFT F_id (vib_filter 2 2 [(''x'', [0, 0]), (''y'', [0])]) [] = Inr (st', [] @ ds) \<and>
      length ds = 1 \<and> (\<forall>d\<in>set ds. readingData d = []))"
proof -
  let ?st = "vib_filter 2 2 [(''x'', [0, 0]), (''y'', [0])]"
  have ok: "cfg_ok ?st" by (simp add: cfg_simps)
  have a: "ave_samples ?st 2 = 0"
    by (simp add: ave_samples_def first_bin_def last_bin_def vib_filter_def signed_divide_int_def)
  have m: "nat (m_samples ?st) = 2" by (simp add: vib_filter_def)
  have w: "length (windows ?st (m_buffer ?st)) = 1" by (simp add: windows_def vib_filter_def)
  from full_window_emits[OF ok, of F_id "[]"] obtain st' ds where
    p: "processFFT F_id ?st [] = Inr (st', [] @ ds)" and
    l: "length ds = length (windows ?st (m_buffer ?st))" and
    e: "ave_samples ?st (nat (m_samples ?st)) \<le> 0 \<longrightarrow> (\<forall>d\<in>set ds. readingData d = [])"
    by (elim exE conjE)
  have l': "length ds = 1" using l w by simp
  have e': "\<forall>d\<in>set ds. readingData d = []" using e a m by simp
  from p l' e' have "\<exists>st' ds. processFFT F_id ?st [] = Inr (st', [] @ ds) \<and>
      length ds = 1 \<and> (\<forall>d\<in>set ds. readingData d = [])"
    by (intro exI conjI)
  with ok a process_example show ?thesis by (intro conjI)
qed

subsection \<open>Values of the configuration\<close>

lemma strtol_digits_stop: "cs = [] \<or> \<not> isdigit (hd cs) \<Longrightarrow> strtol_digits a cs = a"
  by (cases cs) auto

lemma strtol_no_number:
  assumes "no_number v"
  shows "strtol v = 0"
proof (cases "dropWhile isspace v")
  case Nil
  show ?thesis unfolding strtol_def Nil by simp
next
  case (Cons c cs)
  show ?thesis
  proof (cases "c = CHR ''-'' \<or> c = CHR ''+''")
    case True
    with assms Cons have "cs = [] \<or> \<not> isdigit (hd cs)"
      by (auto simp: no_number_def split: list.splits)
    then have "strtol_digits 0 cs = 0" by (rule strtol_digits_stop)
    then show ?thesis unfolding strtol_def Cons using True
      by (auto simp: LONG_MIN_def LONG_MAX_def)
  next
    case False
    with assms Cons have "\<not> isdigit c" by (simp add: no_number_def)
    then have "strtol_digits 0 (c # cs) = 0" by simp
    then show ?thesis unfolding strtol_def Cons using False
      by (simp add: LONG_MAX_def)
  qed
qed

lemma no_digit_no_number:
  assumes "\<forall>c\<in>set v. \<not> isdigit c"
  shows "no_number v"
proof -
  have sub: "set (dropWhile isspace v) \<subseteq> set v" by (auto dest: set_dropWhileD)
  show ?thesis
  proof (cases "dropWhile isspace v")
    case Nil
    show ?thesis unfolding no_number_def Nil by simp
  next
    case (Cons c cs)
    with sub assms have "\<not> isdigit c" "\<forall>d\<in>set cs. \<not> isdigit d" by auto
    then show ?thesis unfolding no_number_def Cons by (simp split: list.splits)
  qed
qed

lemma long_to_int_0 [simp]: "long_to_int 0 = 0"
  by (simp add: long_to_int_def)

lemma handleConfig_fields:
  "m_bands (handleConfig config st) =
     (case config ''bands'' of None \<Rightarrow> m_bands st | Some v \<Rightarrow> long_to_int (strtol v))"
  "m_samples (handleConfig config st) =
     (case config ''samples'' of None \<Rightarrow> m_samples st | Some v \<Rightarrow> long_to_int (strtol v))"
  "m_lowPass (handleConfig config st) =
     (case config ''lowPass'' of None \<Rightarrow> m_lowPass st | Some v \<Rightarrow> long_to_int (strtol v))"
  "m_highPass (handleConfig config st) =
     (case config ''highPass'' of None \<Rightarrow> m_highPass st | Some v \<Rightarrow> long_to_int (strtol v))"
  "m_asset (handleConfig config st) = (case config ''asset'' of None \<Rightarrow> m_asset st | Some v \<Rightarrow> v)"
  "m_buffer (handleConfig config st) = m_buffer st"
  by (simp_all add: handleConfig_def Let_def split: option.splits)

text \<open>
  Claim C4, as amended. A value that is not a number, stored under one of the keys
  \<open>bands\<close>, \<open>samples\<close>, \<open>lowPass\<close> and \<open>highPass\<close>, sets the member to 0: the
  former value is not kept. A value without any digit is such a value.
\<close>

theorem non_numeric_config_value:
  assumes "no_number v \<or> (\<forall>c\<in>set v. \<not> isdigit c)"
  shows "(config ''bands'' = Some v \<longrightarrow> m_bands (handleConfig config st) = 0) \<and>
         (config ''samples'' = Some v \<longrightarrow> m_samples (handleConfig config st) = 0) \<and>
         (config ''lowPass'' = Some v \<longrightarrow> m_lowPass (handleConfig config st) = 0) \<and>
         (config ''highPass'' = Some v \<longrightarrow> m_highPass (handleConfig config st) = 0)"
proof -
  from assms have "no_number v" using no_digit_no_number by blast
  from strtol_no_number[OF this] show ?thesis by (simp add: handleConfig_fields)
qed

text \<open>The amended claim at the value \<open>four\<close> for all four keys.\<close>

theorem non_numeric_config_value_witness:
  "no_number ''four'' \<and>
   m_bands (handleConfig [''bands'' \<mapsto> ''four'', ''samples'' \<mapsto> ''four'',
      ''lowPass'' \<mapsto> ''four'', ''highPass'' \<mapsto> ''four''] (vib_filter 4 8 [])) = 0 \<and>
   m_samples (handleConfig [''bands'' \<mapsto> ''four'', ''samples'' \<mapsto> ''four'',
      ''lowPass'' \<mapsto> ''four'', ''highPass'' \<mapsto> ''four''] (vib_filter 4 8 [])) = 0 \<and>
   m_lowPass (handleConfig [''bands'' \<mapsto> ''four'', ''samples'' \<mapsto> ''four'',
      ''lowPass'' \<mapsto> ''four'', ''highPass'' \<mapsto> ''four''] (vib_filter 4 8 [])) = 0 \<and>
   m_highPass (handleConfig [''bands'' \<mapsto> ''four'', ''samples'' \<mapsto> ''four'',
      ''lowPass'' \<mapsto> ''four'', ''highPass'' \<mapsto> ''four''] (vib_filter 4 8 [])) = 0"
proof -
  have h: "no_number ''four''" by (simp add: no_number_def isspace_def isdigit_def)
  then have h': "no_number ''four'' \<or> (\<forall>c\<in>set ''four''. \<not> isdigit c)" by (rule disjI1)
  show ?thesis
    using h non_numeric_config_value[OF h', of "[''bands'' \<mapsto> ''four'', ''samples'' \<mapsto> ''four'',
      ''lowPass'' \<mapsto> ''four'', ''highPass'' \<mapsto> ''four'']" "vib_filter 4 8 []"]
    by simp
qed

text \<open>
  Claim C4 as stated fails: with four bands configured, the value \<open>four\<close> for \<open>bands\<close>
  leaves 0 bands, and the next full window divides by zero in \<open>runFFT\<close>.
\<close>

lemmas config_simps = handleConfig_def reconfigure_def strtol_def isspace_def isdigit_def
  digit_value_def LONG_MAX_def LONG_MIN_def long_to_int_def

theorem non_numeric_bands_counterexample:
  "m_bands (vib_filter 4 2 []) = 4 \<and>
   m_bands (handleConfig [''bands'' \<mapsto> ''four''] (vib_filter 4 2 [])) = 0 \<and>
   ingest F_id [vib_reading [(''x'', T_FLOAT 0)], vib_reading [(''x'', T_FLOAT 0)]] []
     (handleConfig [''bands'' \<mapsto> ''four''] (vib_filter 4 2 [])) = Inl DivisionByZero"
  by (simp add: run_simps config_simps)

subsection \<open>Bands and aveSamples\<close>

lemma bands_window:
  assumes s: "runFFT_bands F st values = Inr s" and a: "0 < ave_samples st (length values)"
  shows "l_datapoints s =
     map (\<lambda>j. (band_label (int j),
                T_FLOAT (group_mean (F (complex_data values) (length values) 1)
                   (nat (ave_samples st (length values)))
                   [first_bin st (length values)..last_bin st (length values) - 1] j)))
       [0..<length [first_bin st (length values)..last_bin st (length values) - 1]
              div nat (ave_samples st (length values))]"
proof -
  let ?a = "nat (ave_samples st (length values))"
  have pos: "0 < ?a" and eq: "int ?a = ave_samples st (length values)" using a by simp_all
  from grouped_fold[OF pos, of "F (complex_data values) (length values) 1"
      "[first_bin st (length values)..last_bin st (length values) - 1]"]
  show ?thesis
    unfolding runFFT_bands_Inr(1)[OF s] eq by (simp add: grouped_def)
qed

text \<open>
  Claim C3, as amended. \<open>handleConfig\<close> rejects nothing: a value of \<open>bands\<close> is stored
  as \<open>strtol\<close> reads it. When \<open>runFFT\<close> gets through its loop, a band amplitude is a
  sum of magnitudes divided by a positive \<open>aveSamples\<close>: with \<open>aveSamples\<close> not positive
  there is no band, and with a positive one every band is the mean of \<open>aveSamples\<close> bins.
\<close>

theorem bands_divide_by_positive:
  "(\<forall>v. config ''bands'' = Some v \<longrightarrow> m_bands (handleConfig config st) = long_to_int (strtol v)) \<and>
   (\<forall>s. runFFT_bands F st values = Inr s \<longrightarrow>
      (ave_samples st (length values) \<le> 0 \<longrightarrow> l_datapoints s = []) \<and>
      (0 < ave_samples st (length values) \<longrightarrow>
         l_datapoints s =
           map (\<lambda>j. (band_label (int j),
                  T_FLOAT (sum_list (map (magnitude (F (complex_data values) (length values) 1))
                      (take (nat (ave_samples st (length values)))
                         (drop (j * nat (ave_samples st (length values)))
                            [first_bin st (length values)..last_bin st (length values) - 1])))
                    / real (nat (ave_samples st (length values))))))
             [0..<length [first_bin st (length values)..last_bin st (length values) - 1]
                    div nat (ave_samples st (length values))]))"
  using no_band_window[of F st "values"] bands_window[of F st "values"]
  by (simp add: handleConfig_fields group_mean_def)

text \<open>
  The amended claim at four bands for a window of two values, where \<open>aveSamples\<close> is 0,
  and at two bands for a window of eight, where it is 2.
\<close>

theorem bands_divide_by_positive_witness:
  "m_bands (handleConfig [''bands'' \<mapsto> ''4''] (vib_filter 2 2 [])) = 4 \<and>
   ave_samples (vib_filter 4 2 []) 2 = 0 \<and>
   (\<exists>s. runFFT_bands F_id (vib_filter 4 2 []) [0, 0] = Inr s \<and> l_datapoints s = []) \<and>
   ave_samples (vib_filter 2 8 []) 8 = 2 \<and>
   (\<exists>s. runFFT_bands F_id (vib_filter 2 8 []) [0, 0, 0, 0, 0, 0, 0, 0] = Inr s \<and>
        l_datapoints s = [(''Band 00'', T_FLOAT 0), (''Band 01'', T_FLOAT 0)])"
proof -
  have c: "[''bands'' \<mapsto> ''4''] ''bands'' = Some ''4''" by simp
  have v: "long_to_int (strtol ''4'') = 4" by (simp add: config_simps)
  have a0: "ave_samples (vib_filter 4 2 []) 2 = 0"
    by (simp add: ave_samples_def first_bin_def last_bin_def vib_filter_def signed_divide_int_def)
  have a2: "ave_samples (vib_filter 2 8 []) 8 = 2"
    by (simp add: ave_samples_def first_bin_def last_bin_def vib_filter_def signed_divide_int_def)
  have "bands_ok (vib_filter 4 2 []) (length [0::real, 0])"
    by (simp add: bands_ok_def vib_filter_def INT_MAX_def)
  from runFFT_bands_ok[OF this, of F_id] obtain s0 where
    s0: "runFFT_bands F_id (vib_filter 4 2 []) [0, 0] = Inr s0" by blast
  have "bands_ok (vib_filter 2 8 []) (length [0::real, 0, 0, 0, 0, 0, 0, 0])"
    by (simp add: bands_ok_def vib_filter_def INT_MAX_def)
  from runFFT_bands_ok[OF this, of F_id] obtain s2 where
    s2: "runFFT_bands F_id (vib_filter 2 8 []) [0, 0, 0, 0, 0, 0, 0, 0] = Inr s2" by blast
  have b: "m_bands (handleConfig [''bands'' \<mapsto> ''4''] (vib_filter 2 2 [])) = 4"
    using bands_divide_by_positive[of "[''bands'' \<mapsto> ''4'']" "vib_filter 2 2 []"] c v by simp
  have l0: "length [0::real, 0] = 2" and l2: "length [0::real, 0, 0, 0, 0, 0, 0, 0] = 8" by simp_all
  note t0 = bands_divide_by_positive[of "[''bands'' \<mapsto> ''4'']" "vib_filter 4 2 []" F_id "[0, 0]",
      unfolded l0, THEN conjunct2, rule_format, OF s0]
  have d0: "l_datapoints s0 = []" using t0 a0 by simp
  have fl: "first_bin (vib_filter 2 8 []) 8 = 0" "last_bin (vib_filter 2 8 []) 8 = 4"
    by (simp_all add: first_bin_def last_bin_def vib_filter_def)
  note t2 = bands_divide_by_positive[of "[''bands'' \<mapsto> ''4'']" "vib_filter 2 8 []" F_id
        "[0, 0, 0, 0, 0, 0, 0, 0]", unfolded l2, THEN conjunct2, rule_format, OF s2]
  have d2: "l_datapoints s2 = [(''Band 00'', T_FLOAT 0), (''Band 01'', T_FLOAT 0)]"
    using t2 a2 fl
    by (simp add: upto.simps upt_rec[of 0] upt_rec[of 1] magnitude_def F_id_def complex_data_def band_label_def
          fmt_02d_def decimal_digit digit_char_def)
  from b a0 s0 d0 a2 s2 d2 show ?thesis by blast
qed

text \<open>
  Claim C3 as stated fails: \<open>reconfigure\<close> accepts 0 bands, and the next full window
  divides by zero in \<open>runFFT\<close>.
\<close>

theorem zero_bands_counterexample:
  "m_bands (reconfigure [''bands'' \<mapsto> ''0''] (vib_filter 4 2 [])) = 0 \<and>
   ingest F_id [vib_reading [(''x'', T_FLOAT 0)], vib_reading [(''x'', T_FLOAT 0)]] []
     (reconfigure [''bands'' \<mapsto> ''0''] (vib_filter 4 2 [])) = Inl DivisionByZero"
  by (simp add: run_simps config_simps)

subsection \<open>Reconfiguration\<close>

lemma ingest_one:
  "assetName reading = m_asset st \<Longrightarrow>
   ingest F [reading] out st = Inr (st', rs', out') \<longleftrightarrow>
     (rs' = [] \<and> processFFT F (addFFTAsset reading st) out = Inr (st', out'))"
  by (auto simp: ingest_def split: sum.splits)

lemma list_all2_windows:
  assumes "list_all2 P (windows st buf) ss"
  shows "list_all2 (\<lambda>vec s. int (length vec) = m_samples st \<and> P vec s) (windows st buf) ss"
proof -
  have "\<And>i. i < length (windows st buf) \<Longrightarrow> int (length (windows st buf ! i)) = m_samples st"
  proof -
    fix i assume "i < length (windows st buf)"
    then have "windows st buf ! i \<in> set (windows st buf)" by (rule nth_mem)
    then show "int (length (windows st buf ! i)) = m_samples st" by (simp add: windows_def)
  qed
  with assms show ?thesis by (simp add: list_all2_conv_all_nth)
qed

lemma same_config_runFFT_bands: "same_config st st' \<Longrightarrow> runFFT_bands F st' = runFFT_bands F st"
  by (simp add: runFFT_bands_def same_config_def fun_eq_iff)

lemma same_config_FFT_Reading: "same_config st st' \<Longrightarrow> FFT_Reading st' = FFT_Reading st"
  by (simp add: FFT_Reading_def same_config_def fun_eq_iff)

lemma same_config_drained: "same_config st st' \<Longrightarrow> drained st' = drained st"
  by (simp add: drained_def same_config_def fun_eq_iff)

lemma same_config_windows: "same_config st st' \<Longrightarrow> windows st' = windows st"
  by (simp add: windows_def same_config_def fun_eq_iff)

text \<open>
  What \<open>processFFT\<close> does in a state \<open>st2\<close> that has the configuration of \<open>st1\<close>: with
  a configuration that keeps \<open>runFFT\<close> defined it returns, and what it returns is the
  buffers of \<open>m_samples\<close> values emptied and one reading for each of them.
\<close>

lemma processFFT_same_config:
  assumes c: "same_config st1 st2"
  shows "cfg_ok st1 \<Longrightarrow> \<exists>st' out'. processFFT F st2 out = Inr (st', out')"
    and "processFFT F st2 out = Inr (st', out') \<Longrightarrow>
         m_buffer st' = drained st1 (m_buffer st2) \<and>
         (\<exists>ss. list_all2 (\<lambda>vec s. int (length vec) = m_samples st1 \<and> runFFT_bands F st1 vec = Inr s)
                 (windows st1 (m_buffer st2)) ss \<and>
               out' = out @ map (FFT_Reading st1) ss)"
proof -
  assume "cfg_ok st1"
  then have "cfg_ok st2" using same_config_cfg_ok[OF c] by simp
  then show "\<exists>st' out'. processFFT F st2 out = Inr (st', out')" by (rule processFFT_ok)
next
  assume p: "processFFT F st2 out = Inr (st', out')"
  from processFFT_Inr[OF p] obtain ss where
    1: "st' = st2\<lparr>m_buffer := drained st2 (m_buffer st2)\<rparr>" and
    2: "list_all2 (\<lambda>vec s. runFFT_bands F st2 vec = Inr s) (windows st2 (m_buffer st2)) ss" and
    3: "out' = out @ map (FFT_Reading st2) ss" by blast
  have "list_all2 (\<lambda>vec s. runFFT_bands F st1 vec = Inr s) (windows st1 (m_buffer st2)) ss"
    using 2 by (simp add: same_config_windows[OF c] same_config_runFFT_bands[OF c])
  then have "list_all2 (\<lambda>vec s. int (length vec) = m_samples st1 \<and> runFFT_bands F st1 vec = Inr s)
      (windows st1 (m_buffer st2)) ss" by (rule list_all2_windows)
  moreover have "out' = out @ map (FFT_Reading st1) ss"
    using 3 by (simp add: same_config_FFT_Reading[OF c])
  moreover have "m_buffer st' = drained st1 (m_buffer st2)"
    using 1 by (simp add: same_config_drained[OF c])
  ultimately show "m_buffer st' = drained st1 (m_buffer st2) \<and>
         (\<exists>ss. list_all2 (\<lambda>vec s. int (length vec) = m_samples st1 \<and> runFFT_bands F st1 vec = Inr s)
                 (windows st1 (m_buffer st2)) ss \<and>
               out' = out @ map (FFT_Reading st1) ss)" by blast
qed

lemma ingest_one_eq:
  "assetName reading = m_asset st \<Longrightarrow>
   ingest F [reading] out st =
     (case processFFT F (addFFTAsset reading st) out of
        Inl e \<Rightarrow> Inl e
      | Inr (st', out') \<Rightarrow> Inr (st', [], out'))"
  by (simp add: ingest_def split: sum.splits)

text \<open>
  Claim C9. \<open>reconfigure\<close> leaves \<open>m_buffer\<close> as it is and stores the number read from
  a \<open>samples\<close> value. When a reading of the monitored asset is ingested next, and the
  new configuration keeps \<open>runFFT\<close> defined, \<open>ingest\<close> returns; its values are
  appended to the buffers as they were before the reconfiguration, and the buffers that
  then hold the new \<open>m_samples\<close> values are the ones emptied and transformed, each into
  one reading. So it is in every later state \<open>st2\<close> of this configuration: \<open>processFFT\<close>
  returns, empties the buffers of the new \<open>m_samples\<close> values and adds one reading for
  the transform of each.
\<close>

theorem reconfigure_keeps_buffers:
  "m_buffer (reconfigure newConfig st) = m_buffer st \<and>
   (\<forall>v. newConfig ''samples'' = Some v \<longrightarrow> m_samples (reconfigure newConfig st) = long_to_int (strtol v)) \<and>
   (\<forall>reading. assetName reading = m_asset (reconfigure newConfig st) \<longrightarrow>
      (cfg_ok (reconfigure newConfig st) \<longrightarrow> (\<exists>st' out'. ingest F [reading] out (reconfigure newConfig st) = Inr (st', [], out'))) \<and>
      (\<forall>st' rs' out'. ingest F [reading] out (reconfigure newConfig st) = Inr (st', rs', out') \<longrightarrow>
         m_buffer st' = drained (reconfigure newConfig st) (addFFTAsset_loop (readingData reading) (m_buffer st)) \<and>
         (\<forall>vec\<in>set (windows (reconfigure newConfig st) (addFFTAsset_loop (readingData reading) (m_buffer st))). int (length vec) = m_samples (reconfigure newConfig st)) \<and>
         (\<exists>ss. list_all2 (\<lambda>vec s. int (length vec) = m_samples (reconfigure newConfig st) \<and>
                                 runFFT_bands F (reconfigure newConfig st) vec = Inr s)
                 (windows (reconfigure newConfig st) (addFFTAsset_loop (readingData reading) (m_buffer st))) ss \<and>
               out' = out @ map (FFT_Reading (reconfigure newConfig st)) ss))) \<and>
   (\<forall>st2. same_config (reconfigure newConfig st) st2 \<longrightarrow>
      (cfg_ok (reconfigure newConfig st) \<longrightarrow> (\<exists>st' out'. processFFT F st2 out = Inr (st', out'))) \<and>
      (\<forall>st' out'. processFFT F st2 out = Inr (st', out') \<longrightarrow>
         m_buffer st' = drained (reconfigure newConfig st) (m_buffer st2) \<and>
         (\<exists>ss. list_all2 (\<lambda>vec s. int (length vec) = m_samples (reconfigure newConfig st) \<and>
                                 runFFT_bands F (reconfigure newConfig st) vec = Inr s)
                 (windows (reconfigure newConfig st) (m_buffer st2)) ss \<and>
               out' = out @ map (FFT_Reading (reconfigure newConfig st)) ss)))"
proof (intro conjI allI impI)
  show "m_buffer (reconfigure newConfig st) = m_buffer st"
    by (simp add: reconfigure_def handleConfig_fields)
  fix v assume "newConfig ''samples'' = Some v"
  then show "m_samples (reconfigure newConfig st) = long_to_int (strtol v)"
    by (simp add: reconfigure_def handleConfig_fields)
next
  fix reading :: Reading
  assume m: "assetName reading = m_asset (reconfigure newConfig st)" and ok: "cfg_ok (reconfigure newConfig st)"
  have "same_config (reconfigure newConfig st) (addFFTAsset reading (reconfigure newConfig st))" by simp
  from processFFT_same_config(1)[OF this ok, of F out]
  show "\<exists>st' out'. ingest F [reading] out (reconfigure newConfig st) = Inr (st', [], out')"
    by (auto simp: ingest_one_eq[OF m])
next
  fix reading :: Reading and st' :: FFTFilter and rs' out' :: "Reading list"
  assume m: "assetName reading = m_asset (reconfigure newConfig st)"
    and i: "ingest F [reading] out (reconfigure newConfig st) = Inr (st', rs', out')"
  have b: "m_buffer (reconfigure newConfig st) = m_buffer st" by (simp add: reconfigure_def handleConfig_fields)
  from i m have p: "processFFT F (addFFTAsset reading (reconfigure newConfig st)) out = Inr (st', out')"
    by (simp add: ingest_one)
  have buf: "m_buffer (addFFTAsset reading (reconfigure newConfig st)) = (addFFTAsset_loop (readingData reading) (m_buffer st))" by (simp add: addFFTAsset_def b)
  have c: "same_config (reconfigure newConfig st) (addFFTAsset reading (reconfigure newConfig st))" by simp
  note r = processFFT_same_config(2)[OF c p, unfolded buf]
  show "m_buffer st' = drained (reconfigure newConfig st) (addFFTAsset_loop (readingData reading) (m_buffer st))" using r by (rule conjunct1)
  show "\<forall>vec\<in>set (windows (reconfigure newConfig st) (addFFTAsset_loop (readingData reading) (m_buffer st))). int (length vec) = m_samples (reconfigure newConfig st)"
    by (simp add: windows_def)
  show "\<exists>ss. list_all2 (\<lambda>vec s. int (length vec) = m_samples (reconfigure newConfig st) \<and>
                                 runFFT_bands F (reconfigure newConfig st) vec = Inr s)
                 (windows (reconfigure newConfig st) (addFFTAsset_loop (readingData reading) (m_buffer st))) ss \<and>
               out' = out @ map (FFT_Reading (reconfigure newConfig st)) ss"
    using r by (rule conjunct2)
next
  fix st2 :: FFTFilter
  assume c: "same_config (reconfigure newConfig st) st2" and ok: "cfg_ok (reconfigure newConfig st)"
  show "\<exists>st' out'. processFFT F st2 out = Inr (st', out')"
    using processFFT_same_config(1)[OF c ok] .
next
  fix st2 st' :: FFTFilter and out' :: "Reading list"
  assume c: "same_config (reconfigure newConfig st) st2" and p: "processFFT F st2 out = Inr (st', out')"
  note r = processFFT_same_config(2)[OF c p]
  show "m_buffer st' = drained (reconfigure newConfig st) (m_buffer st2)" using r by (rule conjunct1)
  show "\<exists>ss. list_all2 (\<lambda>vec s. int (length vec) = m_samples (reconfigure newConfig st) \<and>
                                 runFFT_bands F (reconfigure newConfig st) vec = Inr s)
                 (windows (reconfigure newConfig st) (m_buffer st2)) ss \<and>
               out' = out @ map (FFT_Reading (reconfigure newConfig st)) ss"
    using r by (rule conjunct2)
qed

lemma reconfigure_example:
  "ingest F_id [vib_reading [(''x'', T_FLOAT 0)]] []
     (reconfigure [''samples'' \<mapsto> ''4''] (vib_filter 1 8 [(''x'', [0, 0, 0])])) =
   Inr (vib_filter 1 4 [(''x'', [])], [],
        [\<lparr>assetName = ''vib FFT'', readingData = [(''Band 00'', T_FLOAT 0)]\<rparr>])"
  by (simp add: run_simps config_simps)

text \<open>
  The claim at the scenario of the specification: three values are buffered for a window
  of eight, the window becomes four, and one more value fills it: \<open>ingest\<close> returns
  the reading of a window of four values.
\<close>

theorem reconfigure_keeps_buffers_witness:
  "m_buffer (reconfigure [''samples'' \<mapsto> ''4''] (vib_filter 1 8 [(''x'', [0, 0, 0])])) = [(''x'', [0, 0, 0])] \<and>
   m_samples (reconfigure [''samples'' \<mapsto> ''4''] (vib_filter 1 8 [(''x'', [0, 0, 0])])) = 4 \<and>
   cfg_ok (reconfigure [''samples'' \<mapsto> ''4''] (vib_filter 1 8 [(''x'', [0, 0, 0])])) \<and>
   assetName (vib_reading [(''x'', T_FLOAT 0)]) = m_asset (reconfigure [''samples'' \<mapsto> ''4''] (vib_filter 1 8 [(''x'', [0, 0, 0])])) \<and>
   (\<exists>st' out'. ingest F_id [vib_reading [(''x'', T_FLOAT 0)]] [] (reconfigure [''samples'' \<mapsto> ''4''] (vib_filter 1 8 [(''x'', [0, 0, 0])])) = Inr (st', [], out')) \<and>
   ingest F_id [vib_reading [(''x'', T_FLOAT 0)]] [] (reconfigure [''samples'' \<mapsto> ''4''] (vib_filter 1 8 [(''x'', [0, 0, 0])])) =
     Inr (vib_filter 1 4 [(''x'', [])], [],
          [\<lparr>assetName = ''vib FFT'', readingData = [(''Band 00'', T_FLOAT 0)]\<rparr>]) \<and>
   windows (reconfigure [''samples'' \<mapsto> ''4''] (vib_filter 1 8 [(''x'', [0, 0, 0])])) (addFFTAsset_loop [(''x'', T_FLOAT 0)] [(''x'', [0, 0, 0])]) = [[0, 0, 0, 0]] \<and>
   m_buffer (vib_filter 1 4 [(''x'', [])]) =
     drained (reconfigure [''samples'' \<mapsto> ''4''] (vib_filter 1 8 [(''x'', [0, 0, 0])])) (addFFTAsset_loop [(''x'', T_FLOAT 0)] [(''x'', [0, 0, 0])])"
proof -
  let ?cfg = "[''samples'' \<mapsto> ''4'']"
  let ?st = "vib_filter 1 8 [(''x'', [0, 0, 0])]"
  let ?r = "vib_reading [(''x'', T_FLOAT 0)]"
  note t = reconfigure_keeps_buffers[of ?cfg ?st F_id "[]"]
  have b: "m_buffer ?st = [(''x'', [0, 0, 0])]" by (simp add: vib_filter_def)
  have v: "long_to_int (strtol ''4'') = 4" by (simp add: config_simps)
  have a: "assetName ?r = m_asset (reconfigure [''samples'' \<mapsto> ''4''] (vib_filter 1 8 [(''x'', [0, 0, 0])]))"
    by (simp add: vib_reading_def vib_filter_def config_simps)
  have rd: "readingData ?r = [(''x'', T_FLOAT 0)]" by (simp add: vib_reading_def)
  have ok: "cfg_ok (reconfigure [''samples'' \<mapsto> ''4''] (vib_filter 1 8 [(''x'', [0, 0, 0])]))"
    by (simp add: cfg_ok_def bands_ok_def vib_filter_def INT_MAX_def config_simps)
  from t have 1: "m_buffer (reconfigure [''samples'' \<mapsto> ''4''] (vib_filter 1 8 [(''x'', [0, 0, 0])])) = [(''x'', [0, 0, 0])]" by (simp add: b)
  from t v have 2: "m_samples (reconfigure [''samples'' \<mapsto> ''4''] (vib_filter 1 8 [(''x'', [0, 0, 0])])) = 4" by simp
  note tr = t[THEN conjunct2, THEN conjunct2, THEN conjunct1, rule_format, OF a]
  from tr[THEN conjunct1] ok
  have 3: "\<exists>st' out'. ingest F_id [?r] [] (reconfigure [''samples'' \<mapsto> ''4''] (vib_filter 1 8 [(''x'', [0, 0, 0])])) = Inr (st', [], out')" by (rule mp)
  have 4: "windows (reconfigure [''samples'' \<mapsto> ''4''] (vib_filter 1 8 [(''x'', [0, 0, 0])])) (addFFTAsset_loop [(''x'', T_FLOAT 0)] [(''x'', [0, 0, 0])]) = [[0, 0, 0, 0]]"
    by (simp add: windows_def 2 buffer_add_def)
  from tr[THEN conjunct2, rule_format, OF reconfigure_example]
  have 5: "m_buffer (vib_filter 1 4 [(''x'', [])]) =
     drained (reconfigure [''samples'' \<mapsto> ''4''] (vib_filter 1 8 [(''x'', [0, 0, 0])])) (addFFTAsset_loop [(''x'', T_FLOAT 0)] [(''x'', [0, 0, 0])])"
    unfolding rd b by (rule conjunct1)
  from 1 2 ok a 3 reconfigure_example 4 5 show ?thesis by (intro conjI)
qed

subsection \<open>The range of bins\<close>

lemma runFFT_bands_locals:
  "runFFT_bands F st values =
     and_then (band_locals st (length values)) (\<lambda>(first, last, aveSamples).
       band_loop (length values * 2) (F (complex_data values) (length values) 1) aveSamples
         [first..last - 1] init_band_state)"
  by (simp add: runFFT_bands_def band_locals_def Let_def and_then_def split: sum.splits)

lemma band_locals_Inr:
  "band_locals st sz = Inr (f, l, a) \<Longrightarrow>
     f = first_bin st sz \<and> l = last_bin st sz \<and> a = ave_samples st sz"
  by (auto simp: band_locals_def Let_def and_then_eq_Inr int_result_eq_Inr int_div_eq_Inr
        first_bin_def last_bin_def ave_samples_def)

lemma band_loop_cong:
  "(\<And>i. i \<in> set is \<Longrightarrow> magnitude d1 i = magnitude d2 i) \<Longrightarrow>
   band_loop dsize d1 ave is s = band_loop dsize d2 ave is s"
proof (induction "is" arbitrary: s)
  case Nil
  show ?case by simp
next
  case (Cons i "is")
  have "magnitude d1 i = magnitude d2 i" using Cons.prems[of i] by simp
  then have "absValue_at dsize d1 i = absValue_at dsize d2 i"
    unfolding absValue_at_def by (rule arg_cong)
  moreover have "\<And>s. band_loop dsize d1 ave is s = band_loop dsize d2 ave is s"
    using Cons.IH Cons.prems by simp
  ultimately show ?case by (simp split: sum.splits)
qed

lemma magnitude_cong:
  "0 \<le> i \<Longrightarrow> d1 ! nat (i * 2) = d2 ! nat (i * 2) \<Longrightarrow> d1 ! nat (i * 2 + 1) = d2 ! nat (i * 2 + 1) \<Longrightarrow>
   magnitude d1 i = magnitude d2 i"
  by (simp add: magnitude_def)

text \<open>
  Claim C7. With percentages that are not negative, \<open>runFFT\<close> works on the bins from
  \<open>first\<close>, the floor of \<open>m_lowPass * N / 100\<close>, up to but not including \<open>last\<close>,
  which is \<open>N\<close> less the floor of \<open>m_highPass * N / 100\<close>, for \<open>N\<close> half the size of the
  window. Two transforms that agree on the floats of these bins give the same bands and
  the same peak, whatever they hold elsewhere; and the peak index is a bin of this range,
  unless no magnitude there is positive and it is still 0.
\<close>

theorem bins_outside_range_ignored:
  assumes "0 \<le> m_lowPass st" and "0 \<le> m_highPass st"
    and "\<forall>k. 2 * (m_lowPass st * int (length values div 2) div 100) \<le> int k \<and>
             int k < 2 * (int (length values div 2) - m_highPass st * int (length values div 2) div 100)
           \<longrightarrow> F1 (complex_data values) (length values) 1 ! k =
               F2 (complex_data values) (length values) 1 ! k"
  shows "runFFT_bands F1 st values = runFFT_bands F2 st values \<and>
         (\<forall>s. runFFT_bands F1 st values = Inr s \<longrightarrow>
            (l_peak s = 0 \<and> l_peakf s = 0) \<or>
            (m_lowPass st * int (length values div 2) div 100 \<le> l_peakf s \<and>
             l_peakf s < int (length values div 2) - m_highPass st * int (length values div 2) div 100 \<and>
             l_peak s = magnitude (F1 (complex_data values) (length values) 1) (l_peakf s)))"
proof (intro conjI allI impI)
  let ?n = "length values"
  let ?d1 = "F1 (complex_data values) ?n 1" and ?d2 = "F2 (complex_data values) ?n 1"
  note fl = bins_floor[OF assms(1,2), of ?n]
  have first0: "0 \<le> first_bin st ?n" using bins_range(1)[OF assms(1,2)] .
  have agree: "\<And>i. i \<in> set [first_bin st ?n..last_bin st ?n - 1] \<Longrightarrow> magnitude ?d1 i = magnitude ?d2 i"
  proof -
    fix i assume "i \<in> set [first_bin st ?n..last_bin st ?n - 1]"
    then have i: "first_bin st ?n \<le> i" "i < last_bin st ?n" by simp_all
    then have i0: "0 \<le> i" using first0 by simp
    have "2 * first_bin st ?n \<le> int (nat (i * 2))" "int (nat (i * 2)) < 2 * last_bin st ?n"
      "2 * first_bin st ?n \<le> int (nat (i * 2 + 1))" "int (nat (i * 2 + 1)) < 2 * last_bin st ?n"
      using i i0 by simp_all
    then have "?d1 ! nat (i * 2) = ?d2 ! nat (i * 2)" "?d1 ! nat (i * 2 + 1) = ?d2 ! nat (i * 2 + 1)"
      using assms(3) unfolding fl[symmetric] by blast+
    with i0 show "magnitude ?d1 i = magnitude ?d2 i" by (rule magnitude_cong)
  qed
  show "runFFT_bands F1 st values = runFFT_bands F2 st values"
  proof (cases "band_locals st ?n")
    case (Inl e)
    then show ?thesis by (simp add: runFFT_bands_locals)
  next
    case (Inr t)
    obtain f l a where t: "t = (f, l, a)" by (cases t)
    from band_locals_Inr[OF Inr[unfolded t]] have "f = first_bin st ?n" "l = last_bin st ?n" by simp_all
    with agree have "band_loop (?n * 2) ?d1 a [f..l - 1] init_band_state =
        band_loop (?n * 2) ?d2 a [f..l - 1] init_band_state"
      by (intro band_loop_cong) simp
    with Inr t show ?thesis by (simp add: runFFT_bands_locals)
  qed
next
  fix s
  let ?n = "length values"
  assume s: "runFFT_bands F1 st values = Inr s"
  note fl = bins_floor[OF assms(1,2), of ?n]
  have "peak_from (F1 (complex_data values) ?n 1) {} init_band_state"
    by (simp add: peak_from_def init_band_state_def)
  from peak_fold[OF this, of "[first_bin st ?n..last_bin st ?n - 1]" "ave_samples st ?n"]
  have "peak_from (F1 (complex_data values) ?n 1) (set [first_bin st ?n..last_bin st ?n - 1]) s"
    unfolding runFFT_bands_Inr(1)[OF s] by simp
  then show "(l_peak s = 0 \<and> l_peakf s = 0) \<or>
            (m_lowPass st * int (length values div 2) div 100 \<le> l_peakf s \<and>
             l_peakf s < int (length values div 2) - m_highPass st * int (length values div 2) div 100 \<and>
             l_peak s = magnitude (F1 (complex_data values) (length values) 1) (l_peakf s))"
    unfolding fl[symmetric] by (auto simp: peak_from_def)
qed

lemma trimmed_example:
  "runFFT_bands F_id trimmed_filter [0, 0, 1, 0, 0, 0, 0, 0] =
     Inr \<lparr>l_datapoints = [(''Band 00'', T_FLOAT 0), (''Band 01'', T_FLOAT 1)], l_band = 2,
          l_sum = 0, l_cnt = 0, l_peak = 1, l_peakf = 2\<rparr>"
  by (simp add: run_simps trimmed_filter_def)

text \<open>
  The claim at a window of eight values with a quarter of the four bins cut at each end:
  the bins are 1 and 2, the peak is at 2, and a transform that differs in bin 0 gives the
  same result.
\<close>

theorem bins_outside_range_ignored_witness:
  "0 \<le> m_lowPass trimmed_filter \<and> 0 \<le> m_highPass trimmed_filter \<and>
   F_id (complex_data [0, 0, 1, 0, 0, 0, 0, 0]) 8 1 ! 0 \<noteq>
     F_first (complex_data [0, 0, 1, 0, 0, 0, 0, 0]) 8 1 ! 0 \<and>
   runFFT_bands F_id trimmed_filter [0, 0, 1, 0, 0, 0, 0, 0] =
     runFFT_bands F_first trimmed_filter [0, 0, 1, 0, 0, 0, 0, 0] \<and>
   runFFT_bands F_first trimmed_filter [0, 0, 1, 0, 0, 0, 0, 0] =
     Inr \<lparr>l_datapoints = [(''Band 00'', T_FLOAT 0), (''Band 01'', T_FLOAT 1)], l_band = 2,
          l_sum = 0, l_cnt = 0, l_peak = 1, l_peakf = 2\<rparr>"
proof -
  let ?v = "[0, 0, 1, 0, 0, 0, 0, 0] :: real list"
  have lp: "0 \<le> m_lowPass trimmed_filter" and hp: "0 \<le> m_highPass trimmed_filter"
    by (simp_all add: trimmed_filter_def)
  have d: "F_id (complex_data ?v) 8 1 ! 0 \<noteq> F_first (complex_data ?v) 8 1 ! 0"
    by (simp add: F_id_def F_first_def complex_data_def)
  have agree: "\<forall>k. 2 * (m_lowPass trimmed_filter * int (length ?v div 2) div 100) \<le> int k \<and>
             int k < 2 * (int (length ?v div 2) - m_highPass trimmed_filter * int (length ?v div 2) div 100)
           \<longrightarrow> F_id (complex_data ?v) (length ?v) 1 ! k = F_first (complex_data ?v) (length ?v) 1 ! k"
    by (simp add: F_id_def F_first_def trimmed_filter_def)
  from bins_outside_range_ignored[of trimmed_filter ?v F_id F_first, OF lp hp agree]
  have e: "runFFT_bands F_id trimmed_filter ?v = runFFT_bands F_first trimmed_filter ?v"
    by (rule conjunct1)
  from e trimmed_example have "runFFT_bands F_first trimmed_filter ?v =
     Inr \<lparr>l_datapoints = [(''Band 00'', T_FLOAT 0), (''Band 01'', T_FLOAT 1)], l_band = 2,
          l_sum = 0, l_cnt = 0, l_peak = 1, l_peakf = 2\<rparr>"
    by simp
  with lp hp d e show ?thesis by (intro conjI)
qed

subsection \<open>When processFFT runs\<close>

text \<open>
  Claim C8 as stated fails. With a window of two values, a batch of four readings of the
  monitored asset gives two readings of bands, one after the second and one after the
  fourth reading; processing once after the batch would find four values and give none.
\<close>

theorem process_once_counterexample:
  "ingest F_id [vib_reading [(''x'', T_FLOAT 0)], vib_reading [(''x'', T_FLOAT 0)],
       vib_reading [(''x'', T_FLOAT 0)], vib_reading [(''x'', T_FLOAT 0)]] [] (vib_filter 1 2 []) =
     Inr (vib_filter 1 2 [(''x'', [])], [],
       [\<lparr>assetName = ''vib FFT'', readingData = [(''Band 00'', T_FLOAT 0)]\<rparr>,
        \<lparr>assetName = ''vib FFT'', readingData = [(''Band 00'', T_FLOAT 0)]\<rparr>]) \<and>
   ingest_once F_id [vib_reading [(''x'', T_FLOAT 0)], vib_reading [(''x'', T_FLOAT 0)],
       vib_reading [(''x'', T_FLOAT 0)], vib_reading [(''x'', T_FLOAT 0)]] [] (vib_filter 1 2 []) =
     Inr (vib_filter 1 2 [(''x'', [0, 0, 0, 0])], [], [])"
  by (simp add: run_simps ingest_once_def)

lemma ingest_append:
  "ingest F (as @ bs) out st =
     (case ingest F as out st of
        Inl e \<Rightarrow> Inl e
      | Inr (st', rs', out') \<Rightarrow> ingest F bs out' st')"
  by (simp add: ingest_def ingest_loop_append split: sum.splits)

text \<open>
  Claim C8, as amended. \<open>processFFT\<close> runs once for every reading of the monitored
  asset, right after the values of that reading are appended: ingesting a batch is
  ingesting its readings one after the other, a reading of the monitored asset is
  buffered and the buffers are processed, and any other reading goes to \<open>out\<close> with no
  processing.
\<close>

theorem process_per_reading:
  "ingest F (as @ bs) out st =
     (case ingest F as out st of
        Inl e \<Rightarrow> Inl e
      | Inr (st', rs', out') \<Rightarrow> ingest F bs out' st') \<and>
   ingest F [] out st = Inr (st, [], out) \<and>
   (assetName reading = m_asset st \<longrightarrow>
      ingest F [reading] out st =
        (case processFFT F (addFFTAsset reading st) out of
           Inl e \<Rightarrow> Inl e
         | Inr (st', out') \<Rightarrow> Inr (st', [], out'))) \<and>
   (assetName reading \<noteq> m_asset st \<longrightarrow> ingest F [reading] out st = Inr (st, [], out @ [reading]))"
  by (simp add: ingest_append) (simp add: ingest_def split: sum.splits)

lemma process_example2:
  "processFFT F_id (addFFTAsset (vib_reading [(''x'', T_FLOAT 0)]) (vib_filter 1 2 [(''x'', [0])])) [] =
     Inr (vib_filter 1 2 [(''x'', [])],
          [\<lparr>assetName = ''vib FFT'', readingData = [(''Band 00'', T_FLOAT 0)]\<rparr>])"
  by (simp add: run_simps)

text \<open>The amended claim at a reading that fills a window of two values.\<close>

theorem process_per_reading_witness:
  "assetName (vib_reading [(''x'', T_FLOAT 0)]) = m_asset (vib_filter 1 2 [(''x'', [0])]) \<and>
   ingest F_id [vib_reading [(''x'', T_FLOAT 0)]] [] (vib_filter 1 2 [(''x'', [0])]) =
     Inr (vib_filter 1 2 [(''x'', [])], [],
          [\<lparr>assetName = ''vib FFT'', readingData = [(''Band 00'', T_FLOAT 0)]\<rparr>]) \<and>
   assetName (other_reading ''a'') \<noteq> m_asset (vib_filter 1 2 [(''x'', [0])]) \<and>
   ingest F_id [other_reading ''a''] [] (vib_filter 1 2 [(''x'', [0])]) =
     Inr (vib_filter 1 2 [(''x'', [0])], [], [other_reading ''a''])"
proof -
  let ?st = "vib_filter 1 2 [(''x'', [0])]"
  let ?r = "vib_reading [(''x'', T_FLOAT 0)]"
  have a: "assetName ?r = m_asset ?st" by (simp add: vib_reading_def vib_filter_def)
  have b: "assetName (other_reading ''a'') \<noteq> m_asset ?st"
    by (simp add: other_reading_def vib_filter_def)
  note t = process_per_reading[of F_id "[]" "[]" "[]" ?st]
  from t[of ?r] a have "ingest F_id [?r] [] ?st =
        (case processFFT F_id (addFFTAsset ?r ?st) [] of
           Inl e \<Rightarrow> Inl e
         | Inr (st', out') \<Rightarrow> Inr (st', [], out'))" by blast
  then have 1: "ingest F_id [?r] [] ?st = Inr (vib_filter 1 2 [(''x'', [])], [],
          [\<lparr>assetName = ''vib FFT'', readingData = [(''Band 00'', T_FLOAT 0)]\<rparr>])"
    by (simp add: process_example2)
  from t[of "other_reading ''a''"] b
  have 2: "ingest F_id [other_reading ''a''] [] ?st = Inr (?st, [], [] @ [other_reading ''a''])"
    by blast
  from a 1 b 2 show ?thesis by simp
qed

subsection \<open>The trigger of a window\<close>

lemma drained_cong: "m_samples st' = m_samples st \<Longrightarrow> drained st' = drained st"
  by (simp add: drained_def fun_eq_iff)

lemma windows_cong: "m_samples st' = m_samples st \<Longrightarrow> windows st' = windows st"
  by (simp add: windows_def fun_eq_iff)

lemma below_window_cong: "m_samples st' = m_samples st \<Longrightarrow> below_window st' = below_window st"
  by (simp add: below_window_def fun_eq_iff)

lemma addFFTAsset_buffer:
  "m_buffer (addFFTAsset reading st) = addFFTAsset_loop (readingData reading) (m_buffer st)"
  by (simp add: addFFTAsset_def)

lemma process_after_add:
  assumes p: "processFFT F (addFFTAsset reading st) out = Inr (st1, out1)"
  shows "m_buffer st1 = drained st (addFFTAsset_loop (readingData reading) (m_buffer st))"
    and "same_config st st1"
    and "\<exists>ds. out1 = out @ ds \<and>
           length ds = length (windows st (addFFTAsset_loop (readingData reading) (m_buffer st)))"
proof -
  let ?st2 = "addFFTAsset reading st"
  have m: "m_samples ?st2 = m_samples st" by (simp add: addFFTAsset_def)
  from processFFT_Inr[OF p] obtain ss where
    1: "st1 = ?st2\<lparr>m_buffer := drained ?st2 (m_buffer ?st2)\<rparr>" and
    2: "list_all2 (\<lambda>vec s. runFFT_bands F ?st2 vec = Inr s) (windows ?st2 (m_buffer ?st2)) ss" and
    3: "out1 = out @ map (FFT_Reading ?st2) ss" by blast
  show "m_buffer st1 = drained st (addFFTAsset_loop (readingData reading) (m_buffer st))"
    using 1 by (simp add: drained_cong[OF m] addFFTAsset_buffer)
  show "same_config st st1"
    using same_config_trans[OF same_config_addFFTAsset same_config_processFFT[OF p]] .
  have "length (map (FFT_Reading ?st2) ss) =
      length (windows st (addFFTAsset_loop (readingData reading) (m_buffer st)))"
    using list_all2_lengthD[OF 2] by (simp add: windows_cong[OF m] addFFTAsset_buffer)
  with 3 show "\<exists>ds. out1 = out @ ds \<and>
           length ds = length (windows st (addFFTAsset_loop (readingData reading) (m_buffer st)))"
    by blast
qed

text \<open>A filter that has buffered nothing yet is in such a state.\<close>

lemma buffers_short_initial: "0 < m_samples st \<Longrightarrow> m_buffer st = [] \<Longrightarrow> buffers_short st"
  by (simp add: buffers_short_def map_keys_ok_def below_window_def)

lemma buffers_short_step:
  assumes s: "buffers_short st" and d: "names_once reading"
    and p: "processFFT F (addFFTAsset reading st) out = Inr (st1, out1)"
  shows "buffers_short st1"
proof -
  let ?buf = "addFFTAsset_loop (readingData reading) (m_buffer st)"
  from s have pos: "0 < m_samples st" and ok: "map_keys_ok (m_buffer st)"
    and b: "below_window st (m_buffer st)" by (simp_all add: buffers_short_def)
  note r = process_after_add[OF p]
  have m: "m_samples st1 = m_samples st" using r(2) by (simp add: same_config_def)
  have k: "map_keys_ok ?buf"
    unfolding addFFTAsset_loop_fold by (rule map_keys_ok_fold[OF ok])
  have "\<forall>(name, vec)\<in>set ?buf. int (length vec) \<le> m_samples st"
    unfolding addFFTAsset_loop_fold
    using at_most_window_after_add[OF ok b _ pos] d by (simp add: names_once_def)
  from below_window_drained[OF pos this] have "below_window st (drained st ?buf)" .
  then have "below_window st1 (m_buffer st1)" by (simp add: r(1) below_window_cong[OF m])
  moreover have "map_keys_ok (m_buffer st1)" using k by (simp add: r(1) map_keys_ok_drained)
  ultimately show ?thesis using pos m by (simp add: buffers_short_def)
qed

lemma buffers_short_ingest_loop:
  "buffers_short st \<Longrightarrow>
   (\<And>r. r \<in> set readings \<Longrightarrow> assetName r = m_asset st \<Longrightarrow> names_once r) \<Longrightarrow>
   ingest_loop F readings st out = Inr (st', out') \<Longrightarrow> buffers_short st'"
proof (induction readings arbitrary: st out)
  case Nil
  then show ?case by simp
next
  case (Cons r readings)
  show ?case
  proof (cases "assetName r = m_asset st")
    case True
    with Cons.prems(3) obtain st1 out1 where
      p: "processFFT F (addFFTAsset r st) out = Inr (st1, out1)" and
      l: "ingest_loop F readings st1 out1 = Inr (st', out')"
      by (auto split: sum.splits)
    have "names_once r" using Cons.prems(2) True by simp
    from buffers_short_step[OF Cons.prems(1) this p] have s1: "buffers_short st1" .
    have a: "m_asset st1 = m_asset st" using process_after_add(2)[OF p] by (simp add: same_config_def)
    show ?thesis
      using Cons.IH[OF s1 _ l] Cons.prems(2) a by simp
  next
    case False
    with Cons.prems(3) have l: "ingest_loop F readings st (out @ [r]) = Inr (st', out')" by simp
    show ?thesis using Cons.IH[OF Cons.prems(1) _ l] Cons.prems(2) by simp
  qed
qed

lemma buffer_after_add:
  "names_once reading \<Longrightarrow>
   map_of (addFFTAsset_loop (readingData reading) buf) name =
     (case map_of (numeric_values (readingData reading)) name of
        None \<Rightarrow> map_of buf name
      | Some x \<Rightarrow> Some (buffer_of buf name @ [x]))"
  unfolding addFFTAsset_loop_fold names_once_def by (rule map_of_fold_add)

text \<open>
  Claim C2, as amended. Let the window be of at least one value, every buffer short of
  it, and no reading of the monitored asset in the batch hold two numeric datapoints of
  one name. With a configuration that keeps \<open>runFFT\<close> defined, \<open>ingest\<close> returns. When
  it returns, every buffer is short of the window again. And when the batch is one
  reading of the monitored asset, each buffer gets the value of its datapoint appended;
  for each buffer that holds exactly \<open>m_samples\<close> values then, the reading of bands of
  its transform is added to \<open>out\<close>, in the order of the buffers, and these buffers are
  the ones emptied.
\<close>

theorem window_trigger:
  assumes "buffers_short st"
    and "\<forall>r\<in>set readings. assetName r = m_asset st \<longrightarrow> names_once r"
  shows "(cfg_ok st \<longrightarrow> (\<exists>st' out'. ingest F readings out st = Inr (st', [], out'))) \<and>
         (\<forall>st' rs' out'. ingest F readings out st = Inr (st', rs', out') \<longrightarrow>
            buffers_short st' \<and> m_samples st' = m_samples st \<and>
            (\<forall>reading. readings = [reading] \<and> assetName reading = m_asset st \<longrightarrow>
               (\<forall>name. map_of (addFFTAsset_loop (readingData reading) (m_buffer st)) name =
                  (case map_of (numeric_values (readingData reading)) name of
                     None \<Rightarrow> map_of (m_buffer st) name
                   | Some x \<Rightarrow> Some (buffer_of (m_buffer st) name @ [x]))) \<and>
               m_buffer st' = drained st (addFFTAsset_loop (readingData reading) (m_buffer st)) \<and>
               (\<exists>ss. list_all2 (\<lambda>vec s. int (length vec) = m_samples st \<and>
                                       runFFT_bands F st vec = Inr s)
                       (windows st (addFFTAsset_loop (readingData reading) (m_buffer st))) ss \<and>
                     out' = out @ map (FFT_Reading st) ss)))"
proof (intro conjI allI impI)
  assume "cfg_ok st"
  from ingest_loop_ok[OF this, of F readings out]
  show "\<exists>st' out'. ingest F readings out st = Inr (st', [], out')"
    by (auto simp: ingest_eq_Inr)
next
  fix st' :: FFTFilter and rs' out' :: "Reading list"
  assume "ingest F readings out st = Inr (st', rs', out')"
  then have l: "ingest_loop F readings st out = Inr (st', out')"
    by (simp add: ingest_eq_Inr)
  show "buffers_short st'"
    using buffers_short_ingest_loop[OF assms(1) _ l] assms(2) by blast
  show "m_samples st' = m_samples st"
    using ingest_loop_same_config[OF l] by (simp add: same_config_def)
next
  fix st' :: FFTFilter and rs' out' :: "Reading list" and reading :: Reading and name
  assume r: "readings = [reading] \<and> assetName reading = m_asset st"
  with assms(2) have "names_once reading" by simp
  then show "map_of (addFFTAsset_loop (readingData reading) (m_buffer st)) name =
               (case map_of (numeric_values (readingData reading)) name of
                  None \<Rightarrow> map_of (m_buffer st) name
                | Some x \<Rightarrow> Some (buffer_of (m_buffer st) name @ [x]))"
    by (rule buffer_after_add)
next
  fix st' :: FFTFilter and rs' out' :: "Reading list" and reading :: Reading
  assume i: "ingest F readings out st = Inr (st', rs', out')"
    and r: "readings = [reading] \<and> assetName reading = m_asset st"
  then have p: "processFFT F (addFFTAsset reading st) out = Inr (st', out')"
    by (simp add: ingest_one)
  have c: "same_config st (addFFTAsset reading st)" by simp
  note t = processFFT_same_config(2)[OF c p, unfolded addFFTAsset_buffer]
  show "m_buffer st' = drained st (addFFTAsset_loop (readingData reading) (m_buffer st))" using t by (rule conjunct1)
  show "\<exists>ss. list_all2 (\<lambda>vec s. int (length vec) = m_samples st \<and>
                                       runFFT_bands F st vec = Inr s)
                       (windows st (addFFTAsset_loop (readingData reading) (m_buffer st))) ss \<and>
                     out' = out @ map (FFT_Reading st) ss"
    using t by (rule conjunct2)
qed

lemma trigger_example:
  "ingest F_id [vib_reading [(''x'', T_FLOAT 0), (''y'', T_FLOAT 0)]] []
      (vib_filter 1 2 [(''x'', [0])]) =
     Inr (vib_filter 1 2 [(''x'', []), (''y'', [0])], [],
          [\<lparr>assetName = ''vib FFT'', readingData = [(''Band 00'', T_FLOAT 0)]\<rparr>])"
  by (simp add: run_simps)

text \<open>
  The amended claim at a window of two values: the buffer of \<open>x\<close> holds one value and
  gets the second, the buffer of \<open>y\<close> gets its first, and \<open>ingest\<close> returns the reading
  of the window of \<open>x\<close>.
\<close>

theorem window_trigger_witness:
  "buffers_short (vib_filter 1 2 [(''x'', [0])]) \<and> names_once (vib_reading [(''x'', T_FLOAT 0), (''y'', T_FLOAT 0)]) \<and> cfg_ok (vib_filter 1 2 [(''x'', [0])]) \<and>
   (\<exists>st' out'. ingest F_id [(vib_reading [(''x'', T_FLOAT 0), (''y'', T_FLOAT 0)])] [] (vib_filter 1 2 [(''x'', [0])]) = Inr (st', [], out')) \<and>
   ingest F_id [(vib_reading [(''x'', T_FLOAT 0), (''y'', T_FLOAT 0)])] [] (vib_filter 1 2 [(''x'', [0])]) =
     Inr (vib_filter 1 2 [(''x'', []), (''y'', [0])], [],
          [\<lparr>assetName = ''vib FFT'', readingData = [(''Band 00'', T_FLOAT 0)]\<rparr>]) \<and>
   buffers_short (vib_filter 1 2 [(''x'', []), (''y'', [0])]) \<and>
   addFFTAsset_loop [(''x'', T_FLOAT 0), (''y'', T_FLOAT 0)] [(''x'', [0])] =
     [(''x'', [0, 0]), (''y'', [0])] \<and>
   m_buffer (vib_filter 1 2 [(''x'', []), (''y'', [0])]) =
     drained (vib_filter 1 2 [(''x'', [0])]) [(''x'', [0, 0]), (''y'', [0])] \<and>
   windows (vib_filter 1 2 [(''x'', [0])]) [(''x'', [0, 0]), (''y'', [0])] = [[0, 0]]"
proof -
  let ?st = "(vib_filter 1 2 [(''x'', [0])])"
  let ?r = "(vib_reading [(''x'', T_FLOAT 0), (''y'', T_FLOAT 0)])"
  have s: "buffers_short ?st"
    by (simp add: buffers_short_def map_keys_ok_def below_window_def vib_filter_def)
  have n: "names_once ?r" by (simp add: names_once_def vib_reading_def)
  have ns: "\<forall>r\<in>set [?r]. assetName r = m_asset ?st \<longrightarrow> names_once r" using n by simp
  have ok: "cfg_ok ?st" by (simp add: cfg_simps)
  have a: "assetName ?r = m_asset ?st" by (simp add: vib_reading_def vib_filter_def)
  have b: "addFFTAsset_loop [(''x'', T_FLOAT 0), (''y'', T_FLOAT 0)] [(''x'', [0])] =
     [(''x'', [0, 0]), (''y'', [0])]"
    by (simp add: buffer_add_def)
  have rd: "readingData ?r = [(''x'', T_FLOAT 0), (''y'', T_FLOAT 0)]" by (simp add: vib_reading_def)
  have mb: "m_buffer ?st = [(''x'', [0])]" by (simp add: vib_filter_def)
  note t = window_trigger[OF s ns, of F_id "[]"]
  from t[THEN conjunct1] ok
  have e: "\<exists>st' out'. ingest F_id [?r] [] ?st = Inr (st', [], out')" by (rule mp)
  note tr = t[THEN conjunct2, rule_format, OF trigger_example]
  from tr have 1: "buffers_short (vib_filter 1 2 [(''x'', []), (''y'', [0])])" by (rule conjunct1)
  from tr a have 2: "m_buffer (vib_filter 1 2 [(''x'', []), (''y'', [0])]) =
      drained ?st (addFFTAsset_loop (readingData ?r) (m_buffer ?st))" by blast
  have 3: "windows ?st [(''x'', [0, 0]), (''y'', [0])] = [[0, 0]]"
    by (simp add: windows_def vib_filter_def)
  from s n ok e trigger_example 1 b 2[unfolded rd mb b] 3 show ?thesis by (intro conjI)
qed

text \<open>
  Claim C2 as stated fails. A reading with three datapoints of one name puts three values
  into a buffer for a window of two: nothing is emitted, and the buffer holds more than
  \<open>m_samples\<close> values when \<open>ingest\<close> returns. So does a buffer of three
  values after a reconfiguration to a window of two.
\<close>

theorem window_trigger_counterexample:
  "ingest F_id [vib_reading [(''x'', T_FLOAT 0), (''x'', T_FLOAT 0), (''x'', T_FLOAT 0)]] []
      (vib_filter 1 2 []) = Inr (vib_filter 1 2 [(''x'', [0, 0, 0])], [], []) \<and>
   m_samples (vib_filter 1 2 [(''x'', [0, 0, 0])]) < int (length [0::real, 0, 0]) \<and>
   reconfigure [''samples'' \<mapsto> ''2''] (vib_filter 1 8 [(''x'', [0, 0, 0])]) =
     vib_filter 1 2 [(''x'', [0, 0, 0])]"
  by (simp add: run_simps config_simps)

subsection \<open>The number of bands\<close>

text \<open>
  Claim C1 fails on the code. With three bands for a window of eight values, four bins are
  left, \<open>aveSamples\<close> is 1, and the loop closes a band at every bin: the reading has
  four bands, and the bin after the third group is the fourth band.
\<close>

theorem more_bands_than_configured:
  "ave_samples (vib_filter 3 8 []) 8 = 1 \<and>
   (\<exists>s. runFFT_bands F (vib_filter 3 8 []) [v0, v1, v2, v3, v4, v5, v6, v7] = Inr s \<and>
      runFFT F (vib_filter 3 8 []) out dpName [v0, v1, v2, v3, v4, v5, v6, v7] =
        Inr (out @ [\<lparr>assetName = ''vib FFT'', readingData = l_datapoints s\<rparr>]) \<and>
      l_datapoints s =
        map (\<lambda>j. (band_label (int j),
              T_FLOAT (magnitude (F (complex_data [v0, v1, v2, v3, v4, v5, v6, v7]) 8 1) (int j))))
          [0, 1, 2, 3] \<and>
      map fst (l_datapoints s) = [''Band 00'', ''Band 01'', ''Band 02'', ''Band 03''])"
proof -
  let ?st = "vib_filter 3 8 []"
  let ?v = "[v0, v1, v2, v3, v4, v5, v6, v7]"
  have a: "ave_samples ?st 8 = 1"
    by (simp add: ave_samples_def first_bin_def last_bin_def vib_filter_def signed_divide_int_def)
  have fl: "first_bin ?st 8 = 0" "last_bin ?st 8 = 4"
    by (simp_all add: first_bin_def last_bin_def vib_filter_def)
  have l: "length ?v = 8" by simp
  have "bands_ok ?st (length ?v)" by (simp add: bands_ok_def vib_filter_def INT_MAX_def)
  from runFFT_bands_ok[OF this, of F] obtain s where s: "runFFT_bands F ?st ?v = Inr s" by blast
  have r: "runFFT F ?st out dpName ?v =
      Inr (out @ [\<lparr>assetName = ''vib FFT'', readingData = l_datapoints s\<rparr>])"
    using s by (simp add: runFFT_eq_Inr FFT_Reading_def vib_filter_def)
  have u: "[0..(4::int) - 1] = [0, 1, 2, 3]" by (simp add: upto.simps)
  have k: "[0..<length [0::int, 1, 2, 3] div nat 1] = [0, 1, 2, 3]"
    by (simp add: upt_rec[of 0] upt_rec[of 1] upt_rec[of 2] upt_rec[of 3])
  note t = bands_window[OF s, unfolded l a fl u k]
  have d: "l_datapoints s =
        map (\<lambda>j. (band_label (int j), T_FLOAT (magnitude (F (complex_data ?v) 8 1) (int j))))
          [0, 1, 2, 3]"
    using t by (simp add: group_mean_def)
  have n: "map fst (l_datapoints s) = [''Band 00'', ''Band 01'', ''Band 02'', ''Band 03'']"
    unfolding d by (simp add: band_label_def fmt_02d_def decimal_digit digit_char_def)
  from s r d n have "\<exists>s. runFFT_bands F ?st ?v = Inr s \<and>
      runFFT F ?st out dpName ?v =
        Inr (out @ [\<lparr>assetName = ''vib FFT'', readingData = l_datapoints s\<rparr>]) \<and>
      l_datapoints s =
        map (\<lambda>j. (band_label (int j), T_FLOAT (magnitude (F (complex_data ?v) 8 1) (int j))))
          [0, 1, 2, 3] \<and>
      map fst (l_datapoints s) = [''Band 00'', ''Band 01'', ''Band 02'', ''Band 03'']"
    by (intro exI conjI)
  with a show ?thesis by (rule conjI)
qed

subsection \<open>Labels from the index 100 on\<close>

lemma complex_data_zeros: "complex_data (replicate n 0) = replicate (n * 2) 0"
  by (induction n) (simp_all add: complex_data_def)

lemma magnitude_zeros: "0 \<le> i \<Longrightarrow> nat (i * 2 + 1) < n \<Longrightarrow> magnitude (replicate n 0) i = 0"
  by (simp add: magnitude_def)

lemma sum_list_zeros: "(\<And>x. x \<in> set xs \<Longrightarrow> x = 0) \<Longrightarrow> sum_list xs = (0::real)"
  by (induction xs) simp_all

lemma group_mean_zero:
  "(\<And>i. i \<in> set is \<Longrightarrow> magnitude data i = 0) \<Longrightarrow> group_mean data a is j = 0"
proof -
  assume z: "\<And>i. i \<in> set is \<Longrightarrow> magnitude data i = 0"
  have "sum_list (map (magnitude data) (take a (drop (j * a) is))) = 0"
  proof (rule sum_list_zeros)
    fix x assume "x \<in> set (map (magnitude data) (take a (drop (j * a) is)))"
    then obtain i where "i \<in> set (take a (drop (j * a) is))" "x = magnitude data i" by auto
    then show "x = 0" using z by (auto dest!: in_set_takeD in_set_dropD)
  qed
  then show ?thesis by (simp add: group_mean_def)
qed

lemma labels_zip:
  "map (\<lambda>j. (band_label (int j), c)) [0..<n] = zip (map band_label [0..int n - 1]) (replicate n c)"
  by (rule nth_equalityI) simp_all

lemma band_label_100: "band_label 100 = ''Band 100''"
  by (simp add: band_label_def fmt_02d_def decimal.simps[of 100] decimal.simps[of 10]
        decimal_digit digit_char_def)

text \<open>
  Claim C6 as stated fails. With 128 bands for a window of 256 values, \<open>aveSamples\<close> is 1
  and the reading has 128 datapoints; the one of index 100 is labelled with three digits.
\<close>

theorem two_digit_label_counterexample:
  "runFFT F_id (vib_filter 128 256 []) [] ''x'' (replicate 256 0) =
     Inr [\<lparr>assetName = ''vib FFT'',
           readingData = zip (map band_label [0..127]) (replicate 128 (T_FLOAT 0))\<rparr>] \<and>
   fst (zip (map band_label [0..127]) (replicate 128 (T_FLOAT 0)) ! 100) = ''Band 100''"
proof -
  let ?st = "vib_filter 128 256 []"
  let ?v = "replicate 256 (0::real)"
  have l: "length ?v = 256" by simp
  have a: "ave_samples ?st 256 = 1"
    by (simp add: ave_samples_def first_bin_def last_bin_def vib_filter_def signed_divide_int_def)
  have fl: "first_bin ?st 256 = 0" "last_bin ?st 256 = 128"
    by (simp_all add: first_bin_def last_bin_def vib_filter_def)
  have "bands_ok ?st (length ?v)" by (simp add: bands_ok_def vib_filter_def INT_MAX_def)
  from runFFT_bands_ok[OF this, of F_id] obtain s where s: "runFFT_bands F_id ?st ?v = Inr s" by blast
  have data: "F_id (complex_data ?v) 256 1 = replicate 512 0"
    by (simp add: F_id_def complex_data_zeros)
  have z: "\<And>i. i \<in> set [0..(127::int)] \<Longrightarrow> magnitude (replicate 512 0) i = 0"
  proof -
    fix i :: int assume "i \<in> set [0..127]"
    then have i: "0 \<le> i" "i \<le> 127" by simp_all
    then have "nat (i * 2 + 1) < 512" by (simp add: nat_less_iff)
    with i(1) show "magnitude (replicate 512 0) i = 0" by (rule magnitude_zeros)
  qed
  have n: "length [0..(128::int) - 1] div nat 1 = 128" by simp
  note t = bands_window[OF s, unfolded l a fl data n]
  have d: "l_datapoints s = map (\<lambda>j. (band_label (int j), T_FLOAT 0)) [0..<128]"
    using t group_mean_zero[of "[0..127]" "replicate 512 0", OF z] by simp
  have d': "l_datapoints s = zip (map band_label [0..127]) (replicate 128 (T_FLOAT 0))"
    unfolding d using labels_zip[of "T_FLOAT 0" 128] by simp
  have r: "runFFT F_id ?st [] ''x'' ?v =
     Inr [\<lparr>assetName = ''vib FFT'',
           readingData = zip (map band_label [0..127]) (replicate 128 (T_FLOAT 0))\<rparr>]"
    using s d' by (simp add: runFFT_def FFT_Reading_def vib_filter_def)
  have i: "fst (zip (map band_label [0..127]) (replicate 128 (T_FLOAT 0)) ! 100) = ''Band 100''"
    by (simp add: band_label_100)
  from r i show ?thesis by (rule conjI)
qed

end
